theory Spec2Isabelle
  imports Complex_Main
begin

section \<open>Decimal arithmetic\<close>

text \<open>
  The quantities and prices of the engine are Python \<open>Decimal\<close> values. A \<open>Decimal\<close> built
  from a string keeps every digit, and comparisons, \<open>min\<close> and the test against zero are
  exact, but the result of an arithmetic operation (\<open>+\<close>, \<open>-\<close>, unary \<open>-\<close>, and so the
  augmented assignments \<open>+=\<close> and \<open>-=\<close>) is rounded to the precision of the decimal context,
  which the repository never changes: 28 significant digits, ties to the even digit.
  The model takes a decimal to be the rational number it denotes and rounds the result of
  every arithmetic operation of the source with \<open>context_round\<close>.
  The exponent limits of the context (results beyond \<open>10 ^ 999999\<close> in magnitude, or
  below its inverse) and the special values NaN and Infinity are outside the model.

  \<open>ndigits n\<close> is the number of decimal digits of \<open>n\<close>; \<open>adjusted x\<close> is the exponent of the
  leading digit of \<open>x\<close>, as \<open>Decimal.adjusted()\<close> returns it.
\<close>

function ndigits :: "nat \<Rightarrow> nat" where
  "ndigits n = (if n < 10 then 1 else Suc (ndigits (n div 10)))"
  by pat_completeness auto
termination by (relation "measure id") auto

declare ndigits.simps [simp del]

definition pow10 :: "int \<Rightarrow> rat" where
  "pow10 k = (if 0 \<le> k then 10 ^ nat k else 1 / 10 ^ nat (- k))"

definition adjusted :: "rat \<Rightarrow> int" where
  "adjusted x =
     (let a = \<bar>x\<bar>
      in if 1 \<le> a then int (ndigits (nat \<lfloor>a\<rfloor>)) - 1
         else let j = ndigits (nat \<lfloor>1 / a\<rfloor>)
              in if 1 \<le> a * 10 ^ (j - 1) then - int (j - 1) else - int j)"

definition round_half_even :: "rat \<Rightarrow> int" where
  "round_half_even y =
     (let f = \<lfloor>y\<rfloor>; d = y - of_int f
      in if d < 1 / 2 then f else if 1 / 2 < d then f + 1 else if even f then f else f + 1)"

definition prec :: nat where
  "prec = 28"

definition context_round :: "rat \<Rightarrow> rat" where
  "context_round x =
     (if x = 0 then 0
      else let u = pow10 (adjusted x - (int prec - 1));
               c = of_int (round_half_even (\<bar>x\<bar> / u))
           in if x < 0 then - (c * u) else c * u)"

lemma floor_rat_numeral: "\<lfloor>(numeral a :: rat) / numeral b\<rfloor> = numeral a div numeral b"
  using floor_divide_of_int_eq[of "numeral a" "numeral b", where ?'a = rat] by simp

lemma floor_rat_one: "\<lfloor>(1 :: rat) / numeral b\<rfloor> = 1 div numeral b"
  using floor_divide_of_int_eq[of 1 "numeral b", where ?'a = rat] by simp

lemma pow10_power_int: "pow10 k = power_int 10 k"
  by (simp add: pow10_def power_int_def field_simps)


lemma ndigits_pos: "0 < ndigits n"
  by (subst ndigits.simps) simp

lemma ndigits_upper: "n < 10 ^ ndigits n"
proof (induction n rule: ndigits.induct)
  case (1 n)
  show ?case
  proof (cases "n < 10")
    case True
    then show ?thesis by (subst ndigits.simps) simp
  next
    case False
    from 1[OF False] have "n div 10 < 10 ^ ndigits (n div 10)" .
    then have "n < 10 * 10 ^ ndigits (n div 10)" by simp
    with False show ?thesis by (subst ndigits.simps) simp
  qed
qed

lemma ndigits_lower: "0 < n \<Longrightarrow> 10 ^ (ndigits n - 1) \<le> n"
proof (induction n rule: ndigits.induct)
  case (1 n)
  show ?case
  proof (cases "n < 10")
    case True
    with 1(2) show ?thesis by (subst ndigits.simps) simp
  next
    case False
    then have "0 < n div 10" by simp
    from 1(1)[OF False this] have "10 ^ (ndigits (n div 10) - 1) \<le> n div 10" .
    then have "10 * 10 ^ (ndigits (n div 10) - 1) \<le> n" by simp
    moreover have "ndigits n - 1 = Suc (ndigits (n div 10) - 1)"
      using False ndigits_pos[of "n div 10"] by (subst ndigits.simps) simp
    ultimately show ?thesis by simp
  qed
qed

lemma adjusted_le:
  assumes "x \<noteq> 0"
  shows "pow10 (adjusted x) \<le> \<bar>x\<bar>"
proof (cases "1 \<le> \<bar>x\<bar>")
  case True
  let ?m = "nat \<lfloor>\<bar>x\<bar>\<rfloor>"
  from True have m: "0 < ?m" by simp
  have e: "adjusted x = int (ndigits ?m - 1)"
    using True ndigits_pos[of ?m] by (simp add: adjusted_def Let_def)
  have "(10::rat) ^ (ndigits ?m - 1) \<le> of_nat ?m"
    using ndigits_lower[OF m] by (metis of_nat_le_iff of_nat_numeral of_nat_power)
  also have "\<dots> \<le> \<bar>x\<bar>" using True by simp
  finally show ?thesis by (simp add: e pow10_power_int)
next
  case False
  let ?a = "\<bar>x\<bar>"
  let ?j = "ndigits (nat \<lfloor>1 / ?a\<rfloor>)"
  from assms have apos: "0 < ?a" by simp
  show ?thesis
  proof (cases "1 \<le> ?a * 10 ^ (?j - 1)")
    case True
    with False have e: "adjusted x = - int (?j - 1)" by (simp add: adjusted_def Let_def)
    have "1 / 10 ^ (?j - 1) \<le> ?a" using True by (simp add: field_simps)
    then show ?thesis by (simp add: e pow10_power_int power_int_minus field_simps)
  next
    case nt: False
    with False have e: "adjusted x = - int ?j" by (simp add: adjusted_def Let_def)
    have "1 / ?a < of_int (\<lfloor>1 / ?a\<rfloor> + 1)" by linarith
    also have "\<dots> = of_nat (nat \<lfloor>1 / ?a\<rfloor> + 1)" using apos by simp
    also have "\<dots> \<le> of_nat (10 ^ ?j)"
      using ndigits_upper[of "nat \<lfloor>1 / ?a\<rfloor>"] by (metis Suc_eq_plus1 Suc_leI of_nat_le_iff)
    finally have "1 / ?a < 10 ^ ?j" by simp
    then have "1 / 10 ^ ?j \<le> ?a" using apos by (simp add: field_simps)
    then show ?thesis by (simp add: e pow10_power_int power_int_minus field_simps)
  qed
qed

lemma round_half_even_ge: "\<lfloor>y\<rfloor> \<le> round_half_even y"
  by (simp add: round_half_even_def Let_def)

lemma context_round_0: "context_round 0 = 0"
  by (simp add: context_round_def)

lemma context_round_pos:
  assumes "0 < x"
  shows "0 < context_round x"
proof -
  let ?e = "adjusted x"
  let ?u = "pow10 (?e - (int prec - 1))"
  have u: "0 < ?u" by (simp add: pow10_power_int zero_less_power_int)
  have "?u \<le> pow10 ?e"
    unfolding pow10_power_int by (rule power_int_increasing) (simp_all add: prec_def)
  also have "\<dots> \<le> \<bar>x\<bar>" using adjusted_le[of x] assms by simp
  finally have "1 \<le> \<bar>x\<bar> / ?u" using u by (simp add: field_simps)
  then have "1 \<le> \<lfloor>\<bar>x\<bar> / ?u\<rfloor>" by simp
  with round_half_even_ge[of "\<bar>x\<bar> / ?u"] have "0 < round_half_even (\<bar>x\<bar> / ?u)" by linarith
  with u assms show ?thesis by (simp add: context_round_def Let_def)
qed


text \<open>The arithmetic operations of the source on decimals.\<close>

definition dec_add :: "rat \<Rightarrow> rat \<Rightarrow> rat" where
  "dec_add a b = context_round (a + b)"

definition dec_sub :: "rat \<Rightarrow> rat \<Rightarrow> rat" where
  "dec_sub a b = context_round (a - b)"

definition dec_neg :: "rat \<Rightarrow> rat" where
  "dec_neg a = context_round (- a)"

lemma dec_sub_self: "dec_sub a a = 0"
  by (simp add: dec_sub_def context_round_0)

lemma dec_sub_pos: "b < a \<Longrightarrow> 0 < dec_sub a b"
  by (simp add: dec_sub_def context_round_pos)

lemma dec_sub_nonneg: "b \<le> a \<Longrightarrow> 0 \<le> dec_sub a b"
  using dec_sub_pos[of b a] dec_sub_self[of a] by (cases "a = b") auto

lemma dec_sub_eq_0_iff: "b \<le> a \<Longrightarrow> dec_sub a b = 0 \<longleftrightarrow> a = b"
  using dec_sub_pos[of b a] dec_sub_self[of a] by (cases "a = b") auto

lemmas dec_defs = dec_add_def dec_sub_def dec_neg_def context_round_def adjusted_def
  round_half_even_def prec_def pow10_def ndigits.simps Let_def floor_rat_numeral floor_rat_one

section \<open>Order and trade data models (src/models/orders.py)\<close>

text \<open>
  Order identifiers and symbols are strings; the wall-clock timestamp of an order is a
  natural number supplied by the caller.
\<close>

datatype OrderType = MARKET | LIMIT | IOC | FOK

datatype OrderSide = BUY | SELL

datatype OrderStatus = PENDING | PARTIAL | FILLED | CANCELLED | REJECTED

text \<open>
  The exceptions the engine can raise. \<open>Unrepresented\<close> is not an exception: it marks the
  one outcome of the source for which the state space of the model has no value (see
  \<open>add_order\<close>).
\<close>

datatype error = ValueError string | TypeError string | Unrepresented string

record Order =
  order_id :: string
  symbol :: string
  order_type :: OrderType
  side :: OrderSide
  quantity :: rat
  price :: "rat option"
  timestamp :: nat
  status :: OrderStatus
  filled_quantity :: rat
  remaining_quantity :: rat

text \<open>
  \<open>Order_init\<close> is the dataclass constructor followed by \<open>__post_init__\<close>: the nine init
  fields are its arguments (\<open>order_id\<close> and \<open>timestamp\<close>, which default to a fresh UUID and
  the current time, are passed in), \<open>remaining_quantity\<close> is computed by a decimal
  subtraction, and the four checks run in the order of the source. The symbol is stored
  and never inspected.
\<close>

definition Order_init ::
  "string \<Rightarrow> string \<Rightarrow> OrderType \<Rightarrow> OrderSide \<Rightarrow> rat \<Rightarrow> rat option \<Rightarrow> nat \<Rightarrow>
   OrderStatus \<Rightarrow> rat \<Rightarrow> error + Order" where
  "Order_init oid smb ty sd qty pr ts st filled =
     (let self = \<lparr>order_id = oid, symbol = smb, order_type = ty, side = sd, quantity = qty,
                  price = pr, timestamp = ts, status = st, filled_quantity = filled,
                  remaining_quantity = dec_sub qty filled\<rparr>
      in if quantity self \<le> 0 then Inl (ValueError ''Order quantity must be positive'')
         else if order_type self \<noteq> MARKET \<and> price self = None
           then Inl (ValueError ''orders require a price'')
         else if order_type self = MARKET \<and> price self \<noteq> None
           then Inl (ValueError ''Market orders should not have a price'')
         else if (case price self of None \<Rightarrow> False | Some p \<Rightarrow> p \<le> 0)
           then Inl (ValueError ''Order price must be positive'')
         else Inr self)"

text \<open>
  \<open>new_order\<close> is the constructor as the engine's callers use it (the HTTP layer and the
  tests): \<open>status\<close> and \<open>filled_quantity\<close> are left at their defaults, \<open>PENDING\<close> and 0.
\<close>

definition new_order ::
  "string \<Rightarrow> string \<Rightarrow> OrderType \<Rightarrow> OrderSide \<Rightarrow> rat \<Rightarrow> rat option \<Rightarrow> nat \<Rightarrow> error + Order" where
  "new_order oid smb ty sd qty pr ts = Order_init oid smb ty sd qty pr ts PENDING 0"

text \<open>\<open>Order.fill\<close>: both checks raise before anything is changed.\<close>

definition fill :: "Order \<Rightarrow> rat \<Rightarrow> error + Order" where
  "fill self q =
     (if q \<le> 0 then Inl (ValueError ''Fill quantity must be positive'')
      else if q > remaining_quantity self
        then Inl (ValueError ''Fill quantity exceeds remaining quantity'')
      else
        let self1 = self\<lparr>filled_quantity := dec_add (filled_quantity self) q,
                         remaining_quantity := dec_sub (remaining_quantity self) q\<rparr>
        in if remaining_quantity self1 = 0 then Inr (self1\<lparr>status := FILLED\<rparr>)
           else if filled_quantity self1 > 0 then Inr (self1\<lparr>status := PARTIAL\<rparr>)
           else Inr self1)"

text \<open>
  A trade as the matching loop builds it. The random \<open>trade_id\<close>, the wall-clock
  \<open>timestamp\<close> and the two optional fees (which the engine never sets) are left out.
\<close>

record Trade =
  symbol_t :: string
  price_t :: rat
  quantity_t :: rat
  aggressor_side :: OrderSide
  maker_order_id :: string
  taker_order_id :: string

record BBO =
  symbol_bbo :: string
  best_bid :: "rat option"
  best_bid_quantity :: rat
  best_ask :: "rat option"
  best_ask_quantity :: rat

text \<open>
  The values of the dictionaries handed to API clients: \<open>None\<close>, or the string form of a
  decimal (kept as the decimal it prints).
\<close>

datatype jvalue = JNone | JStr rat

record BBO_dict =
  d_symbol :: string
  d_best_bid :: jvalue
  d_best_bid_quantity :: jvalue
  d_best_ask :: jvalue
  d_best_ask_quantity :: jvalue

text \<open>
  Python's truth test on an \<open>Optional[Decimal]\<close>: \<open>None\<close> and a zero decimal are both
  false.
\<close>

definition truthy :: "rat option \<Rightarrow> bool" where
  "truthy x = (case x of None \<Rightarrow> False | Some d \<Rightarrow> d \<noteq> 0)"

text \<open>\<open>str(x) if x else None\<close> on an optional decimal.\<close>

definition str_or_None :: "rat option \<Rightarrow> jvalue" where
  "str_or_None x = (case x of None \<Rightarrow> JNone | Some d \<Rightarrow> if truthy x then JStr d else JNone)"

definition BBO_to_dict :: "BBO \<Rightarrow> BBO_dict" where
  "BBO_to_dict self =
     \<lparr>d_symbol = symbol_bbo self,
      d_best_bid = str_or_None (best_bid self),
      d_best_bid_quantity = JStr (best_bid_quantity self),
      d_best_ask = str_or_None (best_ask self),
      d_best_ask_quantity = JStr (best_ask_quantity self)\<rparr>"

record OrderBookSnapshot =
  symbol_s :: string
  bids_s :: "(rat \<times> rat) list"
  asks_s :: "(rat \<times> rat) list"

section \<open>Price levels and the order book (src/matching_engine/order_book.py)\<close>

record PriceLevel =
  price_l :: rat
  orders :: "Order list"
  total_quantity :: rat

definition PriceLevel_init :: "rat \<Rightarrow> PriceLevel" where
  "PriceLevel_init p = \<lparr>price_l = p, orders = [], total_quantity = 0\<rparr>"

definition PriceLevel_add_order :: "PriceLevel \<Rightarrow> Order \<Rightarrow> PriceLevel" where
  "PriceLevel_add_order self order =
     self\<lparr>orders := orders self @ [order],
          total_quantity := dec_add (total_quantity self) (remaining_quantity order)\<rparr>"

text \<open>
  The scan of \<open>PriceLevel.remove_order\<close>: the first order of the queue with the given
  identifier is taken out; the result is the queue without it and the order removed.
\<close>

fun remove_scan :: "string \<Rightarrow> Order list \<Rightarrow> (Order list \<times> Order) option" where
  "remove_scan oid [] = None"
| "remove_scan oid (x # xs) =
     (if order_id x = oid then Some (xs, x)
      else (case remove_scan oid xs of None \<Rightarrow> None | Some (ys, r) \<Rightarrow> Some (x # ys, r)))"

definition PriceLevel_remove_order :: "PriceLevel \<Rightarrow> string \<Rightarrow> PriceLevel \<times> Order option" where
  "PriceLevel_remove_order self oid =
     (case remove_scan oid (orders self) of
        None \<Rightarrow> (self, None)
      | Some (ys, removed_order) \<Rightarrow>
          (self\<lparr>orders := ys,
                total_quantity := dec_sub (total_quantity self) (remaining_quantity removed_order)\<rparr>,
           Some removed_order))"

definition update_quantity :: "PriceLevel \<Rightarrow> rat \<Rightarrow> PriceLevel" where
  "update_quantity self quantity_change =
     self\<lparr>total_quantity := dec_add (total_quantity self) quantity_change\<rparr>"

definition is_empty :: "PriceLevel \<Rightarrow> bool" where
  "is_empty self = (length (orders self) = 0 \<or> total_quantity self = 0)"

text \<open>
  A \<open>SortedDict\<close> is the list of its items in iteration order: ascending in the key
  function, which is the identity for the asks and negation for the bids. \<open>sd_setitem\<close>
  is \<open>d[k] = v\<close> (the value is replaced where the key is present, and the item is inserted
  at its sorted position otherwise), \<open>sd_delitem\<close> is \<open>del d[k]\<close>, \<open>sd_modify\<close> is an
  in-place change of the object stored under \<open>k\<close>, and \<open>map_of d k\<close> is \<open>d[k]\<close>.
\<close>

type_synonym 'v SortedDict = "(rat \<times> 'v) list"

definition sd_contains :: "'v SortedDict \<Rightarrow> rat \<Rightarrow> bool" where
  "sd_contains d k = (k \<in> set (map fst d))"

definition sd_modify :: "rat \<Rightarrow> ('v \<Rightarrow> 'v) \<Rightarrow> 'v SortedDict \<Rightarrow> 'v SortedDict" where
  "sd_modify k f d = map (\<lambda>(k', v). if k' = k then (k', f v) else (k', v)) d"

definition sd_setitem :: "(rat \<Rightarrow> rat) \<Rightarrow> rat \<Rightarrow> 'v \<Rightarrow> 'v SortedDict \<Rightarrow> 'v SortedDict" where
  "sd_setitem kf k v d =
     (if sd_contains d k then sd_modify k (\<lambda>_. v) d
      else insort_key (\<lambda>kv. kf (fst kv)) (k, v) d)"

definition sd_delitem :: "rat \<Rightarrow> 'v SortedDict \<Rightarrow> 'v SortedDict" where
  "sd_delitem k d = filter (\<lambda>kv. fst kv \<noteq> k) d"

text \<open>
  The \<open>orders\<close> index of a book maps an identifier to the order object registered last
  under it. The model stores the order as it was when it was registered: the book reads
  only its \<open>side\<close> and \<open>price\<close> through the index, and no fill changes those.
\<close>

record OrderBook =
  symbol_ob :: string
  bids :: "PriceLevel SortedDict"
  asks :: "PriceLevel SortedDict"
  orders_ob :: "string \<rightharpoonup> Order"

definition OrderBook_init :: "string \<Rightarrow> OrderBook" where
  "OrderBook_init smb = \<lparr>symbol_ob = smb, bids = [], asks = [], orders_ob = Map.empty\<rparr>"

text \<open>
  \<open>book = self.bids if order.side == OrderSide.BUY else self.asks\<close>, read and written
  back; \<open>side_key\<close> is the key function of that dictionary.
\<close>

definition side_book :: "OrderSide \<Rightarrow> OrderBook \<Rightarrow> PriceLevel SortedDict" where
  "side_book sd self = (if sd = BUY then bids self else asks self)"

definition set_side_book :: "OrderSide \<Rightarrow> PriceLevel SortedDict \<Rightarrow> OrderBook \<Rightarrow> OrderBook" where
  "set_side_book sd book self = (if sd = BUY then self\<lparr>bids := book\<rparr> else self\<lparr>asks := book\<rparr>)"

definition side_key :: "OrderSide \<Rightarrow> rat \<Rightarrow> rat" where
  "side_key sd = (if sd = BUY then (\<lambda>x. - x) else (\<lambda>x. x))"

text \<open>
  \<open>OrderBook.add_order\<close>. The keys of the model's dictionaries are decimals. For an order
  whose price is \<open>None\<close> the source inserts the key \<open>None\<close>: on the bid side the key
  function negates it, and on an ask side that holds a key it is compared with that key,
  and either raises \<open>TypeError\<close> before anything is changed; on an empty ask side no
  comparison is made and a level is stored under \<open>None\<close>, a book that the model cannot
  represent. The engine adds LIMIT orders only, and construction gives those a price.
\<close>

definition add_order :: "OrderBook \<Rightarrow> Order \<Rightarrow> error + OrderBook" where
  "add_order self order =
     (if remaining_quantity order \<le> 0 then Inr self
      else case price order of
        None \<Rightarrow>
          if side order = BUY \<or> asks self \<noteq> []
          then Inl (TypeError ''unsupported operand for a price of None'')
          else Inl (Unrepresented ''ask level stored under the key None'')
      | Some p \<Rightarrow>
          let book = side_book (side order) self;
              book1 = (if \<not> sd_contains book p
                       then sd_setitem (side_key (side order)) p (PriceLevel_init p) book
                       else book);
              book2 = sd_modify p (\<lambda>l. PriceLevel_add_order l order) book1
          in Inr ((set_side_book (side order) book2 self)
                    \<lparr>orders_ob := (orders_ob self)(order_id order \<mapsto> order)\<rparr>))"

definition remove_order :: "OrderBook \<Rightarrow> string \<Rightarrow> OrderBook \<times> Order option" where
  "remove_order self oid =
     (case orders_ob self oid of
        None \<Rightarrow> (self, None)
      | Some order \<Rightarrow>
          let book = side_book (side order) self
          in case price order of
               None \<Rightarrow> (self, None)
             | Some p \<Rightarrow>
                 (case map_of book p of
                    None \<Rightarrow> (self, None)
                  | Some level \<Rightarrow>
                      let (level1, removed) = PriceLevel_remove_order level oid;
                          book1 = sd_modify p (\<lambda>_. level1) book;
                          book2 = (if is_empty level1 then sd_delitem p book1 else book1);
                          self1 = set_side_book (side order) book2 self
                      in case removed of
                           Some r \<Rightarrow> (self1\<lparr>orders_ob := (orders_ob self1)(oid := None)\<rparr>, Some r)
                         | None \<Rightarrow> (self1, None)))"

definition update_order_quantity :: "OrderBook \<Rightarrow> Order \<Rightarrow> rat \<Rightarrow> OrderBook" where
  "update_order_quantity self order filled =
     (let book = side_book (side order) self
      in case price order of
           None \<Rightarrow> self
         | Some p \<Rightarrow>
             (case map_of book p of
                None \<Rightarrow> self
              | Some level \<Rightarrow>
                  let level1 = update_quantity level (dec_neg filled);
                      book1 = sd_modify p (\<lambda>_. level1) book;
                      book2 = (if is_empty level1 then sd_delitem p book1 else book1)
                  in set_side_book (side order) book2 self))"

definition get_best_bid :: "OrderBook \<Rightarrow> rat option" where
  "get_best_bid self = (case bids self of [] \<Rightarrow> None | (k, _) # _ \<Rightarrow> Some k)"

definition get_best_ask :: "OrderBook \<Rightarrow> rat option" where
  "get_best_ask self = (case asks self of [] \<Rightarrow> None | (k, _) # _ \<Rightarrow> Some k)"

text \<open>
  \<open>self.bids[best_bid].total_quantity if best_bid else Decimal("0")\<close>: the key read is the
  first key of the dictionary, so the level is the one of its first item.
\<close>

definition top_quantity :: "PriceLevel SortedDict \<Rightarrow> rat option \<Rightarrow> rat" where
  "top_quantity book best =
     (if truthy best
      then (case book of [] \<Rightarrow> 0 | (_, level) # _ \<Rightarrow> total_quantity level)
      else 0)"

definition OrderBook_get_bbo :: "OrderBook \<Rightarrow> BBO" where
  "OrderBook_get_bbo self =
     (let best_bid = get_best_bid self; best_ask = get_best_ask self
      in \<lparr>symbol_bbo = symbol_ob self,
          best_bid = best_bid,
          best_bid_quantity = top_quantity (bids self) best_bid,
          best_ask = best_ask,
          best_ask_quantity = top_quantity (asks self) best_ask\<rparr>)"

definition get_snapshot :: "OrderBook \<Rightarrow> int \<Rightarrow> OrderBookSnapshot" where
  "get_snapshot self depth =
     \<lparr>symbol_s = symbol_ob self,
      bids_s = map (\<lambda>(p, level). (p, total_quantity level)) (take (nat depth) (bids self)),
      asks_s = map (\<lambda>(p, level). (p, total_quantity level)) (take (nat depth) (asks self))\<rparr>"

definition get_market_price :: "OrderBook \<Rightarrow> OrderSide \<Rightarrow> rat option" where
  "get_market_price self sd = (if sd = BUY then get_best_ask self else get_best_bid self)"

section \<open>The matching engine (src/matching_engine/engine.py)\<close>

text \<open>
  The engine's state is its registry of books and its trade log. The lock and the
  subscriber callbacks are left out: every operation is modelled as running alone, and a
  subscriber is taken not to call back into the engine (an exception it raises is caught
  by the engine and changes nothing).
\<close>

record MatchingEngine =
  order_books :: "string \<rightharpoonup> OrderBook"
  trades :: "Trade list"

definition MatchingEngine_init :: MatchingEngine where
  "MatchingEngine_init = \<lparr>order_books = Map.empty, trades = []\<rparr>"

definition get_or_create_order_book :: "MatchingEngine \<Rightarrow> string \<Rightarrow> MatchingEngine \<times> OrderBook" where
  "get_or_create_order_book self smb =
     (case order_books self smb of
        None \<Rightarrow> (self\<lparr>order_books := (order_books self)(smb \<mapsto> OrderBook_init smb)\<rparr>,
                  OrderBook_init smb)
      | Some order_book \<Rightarrow> (self, order_book))"

text \<open>
  \<open>book = order_book.asks if order.side == OrderSide.BUY else order_book.bids\<close> is the
  dictionary of the opposite side.
\<close>

definition opposite :: "OrderSide \<Rightarrow> OrderSide" where
  "opposite sd = (if sd = BUY then SELL else BUY)"

text \<open>The price test shared by the matching loop and the FOK precheck.\<close>

definition beyond_limit :: "Order \<Rightarrow> rat \<Rightarrow> bool" where
  "beyond_limit order p =
     (case price order of
        None \<Rightarrow> False
      | Some limit \<Rightarrow>
          if side order = BUY \<and> p > limit then True
          else if side order = SELL \<and> p < limit then True
          else False)"

text \<open>
  In the source the matching loop holds the level object \<open>price_level\<close> in a local
  variable while the same object is stored in the book under \<open>best_price\<close>, until
  \<open>update_order_quantity\<close> deletes that key. The model keeps the object in the loop state
  and copies it into the book after each change for as long as the key is present
  (\<open>store_level\<close> does nothing once the key is gone).
\<close>

definition store_level :: "OrderSide \<Rightarrow> rat \<Rightarrow> PriceLevel \<Rightarrow> OrderBook \<Rightarrow> OrderBook" where
  "store_level sd p level self =
     set_side_book sd (sd_modify p (\<lambda>_. level) (side_book sd self)) self"

type_synonym match_error = "error \<times> Order \<times> OrderBook \<times> Trade list"

text \<open>
  One pass through the body of the inner loop (lines 280 to 315): the head of the queue is
  filled against the incoming order. The state is the incoming order, the book, the level
  object, the local list \<open>trades\<close> and the engine's log \<open>self.trades\<close>. An exception
  leaves with the order, the book and the log as they are at that point.
\<close>

definition match_step ::
  "rat \<Rightarrow> Order \<Rightarrow> OrderBook \<Rightarrow> PriceLevel \<Rightarrow> Trade list \<Rightarrow> Trade list \<Rightarrow>
   match_error + (Order \<times> OrderBook \<times> PriceLevel \<times> Trade list \<times> Trade list)" where
  "match_step best_price order order_book price_level trades_local tlog =
     (case orders price_level of
        [] \<Rightarrow> Inr (order, order_book, price_level, trades_local, tlog)
      | resting_order # rest \<Rightarrow>
          let fill_quantity = min (remaining_quantity order) (remaining_quantity resting_order);
              trade = \<lparr>symbol_t = symbol order, price_t = best_price,
                       quantity_t = fill_quantity, aggressor_side = side order,
                       maker_order_id = order_id resting_order,
                       taker_order_id = order_id order\<rparr>
          in case fill order fill_quantity of
               Inl e \<Rightarrow> Inl (e, order, order_book, tlog)
             | Inr order1 \<Rightarrow>
                 (case fill resting_order fill_quantity of
                    Inl e \<Rightarrow> Inl (e, order1, order_book, tlog)
                  | Inr resting1 \<Rightarrow>
                      let cs = opposite (side order);
                          level1 = price_level\<lparr>orders := resting1 # rest\<rparr>;
                          book1 = store_level cs best_price level1 order_book;
                          book2 = update_order_quantity book1 resting1 fill_quantity;
                          level2 = (if side resting1 = cs \<and> price resting1 = Some best_price
                                       \<and> sd_contains (side_book cs book1) best_price
                                    then update_quantity level1 (dec_neg fill_quantity)
                                    else level1);
                          level3 = (if remaining_quantity resting1 = 0
                                    then level2\<lparr>orders := rest\<rparr> else level2);
                          book3 = (if remaining_quantity resting1 = 0
                                   then (store_level cs best_price level3 book2)
                                          \<lparr>orders_ob := (orders_ob book2)(order_id resting1 := None)\<rparr>
                                   else book2)
                      in Inr (order1, book3, level3, trades_local @ [trade], tlog @ [trade])))"

lemma fill_Inr:
  assumes "fill self q = Inr self1"
  shows "0 < q" and "q \<le> remaining_quantity self"
    and "remaining_quantity self1 = dec_sub (remaining_quantity self) q"
    and "filled_quantity self1 = dec_add (filled_quantity self) q"
    and "side self1 = side self" and "price self1 = price self"
    and "order_id self1 = order_id self" and "symbol self1 = symbol self"
    and "order_type self1 = order_type self" and "quantity self1 = quantity self"
  using assms by (auto simp: fill_def Let_def split: if_splits)

lemma match_step_decreases:
  assumes "match_step bp order ob lvl ts tlog = Inr (order1, ob1, lvl1, ts1, log1)"
    and "orders lvl \<noteq> []"
  shows "remaining_quantity order1 \<le> 0 \<or> length (orders lvl1) < length (orders lvl)"
proof -
  obtain r rest where lv: "orders lvl = r # rest"
    using assms(2) by (cases "orders lvl") auto
  define fq where "fq = min (remaining_quantity order) (remaining_quantity r)"
  from assms(1) lv obtain o1 r1 where
    f1: "fill order fq = Inr o1" and f2: "fill r fq = Inr r1" and o1: "order1 = o1"
    and l1: "orders lvl1 = (if remaining_quantity r1 = 0 then rest else r1 # rest)"
    by (auto simp: match_step_def Let_def fq_def update_quantity_def split: sum.splits if_splits)
  have "remaining_quantity o1 = dec_sub (remaining_quantity order) fq"
    and "remaining_quantity r1 = dec_sub (remaining_quantity r) fq"
    using fill_Inr(3)[OF f1] fill_Inr(3)[OF f2] by simp_all
  then show ?thesis
    using o1 l1 lv by (auto simp: fq_def min_def dec_sub_self split: if_splits)
qed

function match_level ::
  "rat \<Rightarrow> Order \<Rightarrow> OrderBook \<Rightarrow> PriceLevel \<Rightarrow> Trade list \<Rightarrow> Trade list \<Rightarrow>
   match_error + (Order \<times> OrderBook \<times> PriceLevel \<times> Trade list \<times> Trade list)" where
  "match_level best_price order order_book price_level trades_local tlog =
     (if remaining_quantity order > 0 \<and> orders price_level \<noteq> [] then
        (case match_step best_price order order_book price_level trades_local tlog of
           Inl x \<Rightarrow> Inl x
         | Inr (order1, book1, level1, trades1, log1) \<Rightarrow>
             match_level best_price order1 book1 level1 trades1 log1)
      else Inr (order, order_book, price_level, trades_local, tlog))"
  by pat_completeness auto
termination
proof (relation "measure (\<lambda>(bp, order, ob, lvl, ts, tlog).
          if remaining_quantity order > 0 then Suc (length (orders lvl)) else 0)", goal_cases)
  case 1
  show ?case by simp
next
  case (2 bp order ob lvl ts tlog x2 order1 y book1 z level1 w trades1 log1)
  then have "match_step bp order ob lvl ts tlog = Inr (order1, book1, level1, trades1, log1)"
    by simp
  from match_step_decreases[OF this] 2 show ?case by auto
qed

text \<open>The keys of one side of a book, and what the book operations do to them.\<close>

definition level_keys :: "OrderSide \<Rightarrow> OrderBook \<Rightarrow> rat set" where
  "level_keys sd self = set (map fst (side_book sd self))"

lemma map_fst_sd_modify: "map fst (sd_modify k f d) = map fst d"
  by (induction d) (auto simp: sd_modify_def)

lemma keys_sd_modify: "fst ` set (sd_modify k f d) = fst ` set d"
  using arg_cong[OF map_fst_sd_modify, of set k f d] by simp

lemma keys_sd_delitem: "fst ` set (sd_delitem k d) = fst ` set d - {k}"
  by (induction d) (auto simp: sd_delitem_def)

lemma side_book_set_side_book:
  "side_book s (set_side_book sd book self) = (if s = sd then book else side_book s self)"
  by (cases s; cases sd) (auto simp: side_book_def set_side_book_def)

lemma level_keys_store_level: "level_keys s (store_level sd p level self) = level_keys s self"
  by (simp add: level_keys_def store_level_def side_book_set_side_book keys_sd_modify)

lemma level_keys_update_order_quantity:
  "level_keys s (update_order_quantity self order filled) \<subseteq> level_keys s self"
  by (auto simp: level_keys_def update_order_quantity_def Let_def side_book_set_side_book
      keys_sd_modify keys_sd_delitem split: option.splits if_splits)

lemma level_keys_orders_ob_update: "level_keys s (self\<lparr>orders_ob := m\<rparr>) = level_keys s self"
  by (simp add: level_keys_def side_book_def)

lemma match_step_side:
  assumes "match_step bp order ob lvl ts tlog = Inr (order1, ob1, lvl1, ts1, tlog1)"
  shows "side order1 = side order"
  using assms
  by (auto simp: match_step_def Let_def dest: fill_Inr(5) split: list.splits sum.splits)

text \<open>The result of a step whose two fills succeed, written out.\<close>

definition step_book1 :: "rat \<Rightarrow> Order \<Rightarrow> OrderBook \<Rightarrow> PriceLevel \<Rightarrow> Order \<Rightarrow> Order list \<Rightarrow> OrderBook" where
  "step_book1 bp order ob lvl r1 rest =
     store_level (opposite (side order)) bp (lvl\<lparr>orders := r1 # rest\<rparr>) ob"

definition step_level2 :: "rat \<Rightarrow> Order \<Rightarrow> OrderBook \<Rightarrow> PriceLevel \<Rightarrow> Order \<Rightarrow> Order list \<Rightarrow> rat \<Rightarrow> PriceLevel" where
  "step_level2 bp order ob lvl r1 rest fq =
     (if side r1 = opposite (side order) \<and> price r1 = Some bp
         \<and> sd_contains (side_book (opposite (side order)) (step_book1 bp order ob lvl r1 rest)) bp
      then update_quantity (lvl\<lparr>orders := r1 # rest\<rparr>) (dec_neg fq)
      else lvl\<lparr>orders := r1 # rest\<rparr>)"

definition step_level3 :: "rat \<Rightarrow> Order \<Rightarrow> OrderBook \<Rightarrow> PriceLevel \<Rightarrow> Order \<Rightarrow> Order list \<Rightarrow> rat \<Rightarrow> PriceLevel" where
  "step_level3 bp order ob lvl r1 rest fq =
     (if remaining_quantity r1 = 0 then (step_level2 bp order ob lvl r1 rest fq)\<lparr>orders := rest\<rparr>
      else step_level2 bp order ob lvl r1 rest fq)"

definition step_book2 :: "rat \<Rightarrow> Order \<Rightarrow> OrderBook \<Rightarrow> PriceLevel \<Rightarrow> Order \<Rightarrow> Order list \<Rightarrow> rat \<Rightarrow> OrderBook" where
  "step_book2 bp order ob lvl r1 rest fq =
     update_order_quantity (step_book1 bp order ob lvl r1 rest) r1 fq"

definition step_book3 :: "rat \<Rightarrow> Order \<Rightarrow> OrderBook \<Rightarrow> PriceLevel \<Rightarrow> Order \<Rightarrow> Order list \<Rightarrow> rat \<Rightarrow> OrderBook" where
  "step_book3 bp order ob lvl r1 rest fq =
     (if remaining_quantity r1 = 0
      then (store_level (opposite (side order)) bp (step_level3 bp order ob lvl r1 rest fq)
              (step_book2 bp order ob lvl r1 rest fq))
            \<lparr>orders_ob := (orders_ob (step_book2 bp order ob lvl r1 rest fq))(order_id r1 := None)\<rparr>
      else step_book2 bp order ob lvl r1 rest fq)"

definition step_trade :: "rat \<Rightarrow> Order \<Rightarrow> Order \<Rightarrow> rat \<Rightarrow> Trade" where
  "step_trade bp order r fq =
     \<lparr>symbol_t = symbol order, price_t = bp, quantity_t = fq, aggressor_side = side order,
      maker_order_id = order_id r, taker_order_id = order_id order\<rparr>"

lemma match_step_Cons:
  assumes "orders lvl = r # rest"
    and "fill order (min (remaining_quantity order) (remaining_quantity r)) = Inr o1"
    and "fill r (min (remaining_quantity order) (remaining_quantity r)) = Inr r1"
  shows "match_step bp order ob lvl ts tlog =
     Inr (o1,
          step_book3 bp order ob lvl r1 rest (min (remaining_quantity order) (remaining_quantity r)),
          step_level3 bp order ob lvl r1 rest (min (remaining_quantity order) (remaining_quantity r)),
          ts @ [step_trade bp order r (min (remaining_quantity order) (remaining_quantity r))],
          tlog @ [step_trade bp order r (min (remaining_quantity order) (remaining_quantity r))])"
  unfolding match_step_def step_book3_def step_level3_def step_book2_def step_level2_def
    step_book1_def step_trade_def
  using assms by (simp add: Let_def)

lemma match_step_InrE:
  assumes "match_step bp order ob lvl ts tlog = Inr (order1, ob1, lvl1, ts1, tlog1)"
    and "orders lvl = r # rest"
  obtains r1 where
    "fill order (min (remaining_quantity order) (remaining_quantity r)) = Inr order1"
    "fill r (min (remaining_quantity order) (remaining_quantity r)) = Inr r1"
    "ob1 = step_book3 bp order ob lvl r1 rest (min (remaining_quantity order) (remaining_quantity r))"
    "lvl1 = step_level3 bp order ob lvl r1 rest (min (remaining_quantity order) (remaining_quantity r))"
    "ts1 = ts @ [step_trade bp order r (min (remaining_quantity order) (remaining_quantity r))]"
    "tlog1 = tlog @ [step_trade bp order r (min (remaining_quantity order) (remaining_quantity r))]"
proof -
  let ?fq = "min (remaining_quantity order) (remaining_quantity r)"
  obtain o1 where f1: "fill order ?fq = Inr o1"
  proof (cases "fill order ?fq")
    case (Inl e)
    with assms show ?thesis by (simp add: match_step_def Let_def)
  next
    case (Inr o1)
    then show ?thesis using that by simp
  qed
  obtain r1 where f2: "fill r ?fq = Inr r1"
  proof (cases "fill r ?fq")
    case (Inl e)
    with assms f1 show ?thesis by (simp add: match_step_def Let_def)
  next
    case (Inr r1)
    then show ?thesis using that by simp
  qed
  from match_step_Cons[OF assms(2) f1 f2, of bp ob ts tlog] assms(1) f1 f2 that
  show ?thesis by simp
qed

lemma level_keys_step_book3:
  "level_keys s (step_book3 bp order ob lvl r1 rest fq) \<subseteq> level_keys s ob"
proof -
  have "level_keys s (step_book2 bp order ob lvl r1 rest fq) \<subseteq> level_keys s ob"
    unfolding step_book2_def step_book1_def
    using level_keys_update_order_quantity[of s
        "store_level (opposite (side order)) bp (lvl\<lparr>orders := r1 # rest\<rparr>) ob" r1 fq]
      level_keys_store_level[of s "opposite (side order)" bp "lvl\<lparr>orders := r1 # rest\<rparr>" ob]
    by blast
  then show ?thesis
    by (simp add: step_book3_def level_keys_orders_ob_update level_keys_store_level)
qed

lemma match_step_level_keys:
  assumes "match_step bp order ob lvl ts tlog = Inr (order1, ob1, lvl1, ts1, tlog1)"
  shows "level_keys s ob1 \<subseteq> level_keys s ob"
proof (cases "orders lvl")
  case Nil
  with assms show ?thesis by (simp add: match_step_def)
next
  case (Cons r rest)
  from match_step_InrE[OF assms Cons] level_keys_step_book3 show ?thesis by metis
qed

declare match_level.simps [simp del]

lemma match_level_stop:
  "\<not> (remaining_quantity order > 0 \<and> orders lvl \<noteq> []) \<Longrightarrow>
   match_level bp order ob lvl ts tlog = Inr (order, ob, lvl, ts, tlog)"
  by (subst match_level.simps) auto

lemma match_level_step:
  "remaining_quantity order > 0 \<Longrightarrow> orders lvl \<noteq> [] \<Longrightarrow>
   match_step bp order ob lvl ts tlog = Inr (o1, b1, l1, t1, g1) \<Longrightarrow>
   match_level bp order ob lvl ts tlog = match_level bp o1 b1 l1 t1 g1"
  by (subst match_level.simps) simp

lemma match_level_raise:
  "remaining_quantity order > 0 \<Longrightarrow> orders lvl \<noteq> [] \<Longrightarrow>
   match_step bp order ob lvl ts tlog = Inl x \<Longrightarrow>
   match_level bp order ob lvl ts tlog = Inl x"
  by (subst match_level.simps) simp

text \<open>
  A rule for the inner loop: a property of the states that holds at the start and is kept
  by every step holds of the final state, where the loop condition is false.
\<close>

lemma match_level_rule:
  assumes "match_level bp order ob lvl ts tlog = Inr (order1, ob1, lvl1, ts1, tlog1)"
    and "P order ob lvl ts tlog"
    and "\<And>a b l t g a' b' l' t' g'. P a b l t g \<Longrightarrow> remaining_quantity a > 0 \<Longrightarrow>
          orders l \<noteq> [] \<Longrightarrow> match_step bp a b l t g = Inr (a', b', l', t', g') \<Longrightarrow>
          P a' b' l' t' g'"
  shows "P order1 ob1 lvl1 ts1 tlog1 \<and> \<not> (remaining_quantity order1 > 0 \<and> orders lvl1 \<noteq> [])"
  using assms
proof (induction bp order ob lvl ts tlog rule: match_level.induct)
  case (1 bp order ob lvl ts tlog)
  show ?case
  proof (cases "remaining_quantity order > 0 \<and> orders lvl \<noteq> []")
    case False
    with match_level_stop[OF False, of bp ob ts tlog] "1.prems" show ?thesis by simp
  next
    case True
    show ?thesis
    proof (cases "match_step bp order ob lvl ts tlog")
      case (Inl x)
      with True match_level_raise[of order lvl bp ob ts tlog x] "1.prems"(1)
      show ?thesis by simp
    next
      case (Inr y)
      obtain o2 b2 l2 t2 g2 where y: "y = (o2, b2, l2, t2, g2)" by (cases y) auto
      have st: "match_step bp order ob lvl ts tlog = Inr (o2, b2, l2, t2, g2)"
        using Inr y by simp
      have rec: "match_level bp o2 b2 l2 t2 g2 = Inr (order1, ob1, lvl1, ts1, tlog1)"
        using match_level_step[OF _ _ st] True "1.prems"(1) by simp
      have P2: "P o2 b2 l2 t2 g2"
        using "1.prems"(3)[OF "1.prems"(2) _ _ st] True by simp
      show ?thesis
        by (rule "1.IH"[OF True st refl refl refl refl rec P2 "1.prems"(3)])
    qed
  qed
qed

lemma match_level_props:
  assumes "match_level bp order ob lvl ts tlog = Inr (order1, ob1, lvl1, ts1, tlog1)"
  shows "side order1 = side order"
    and "level_keys s ob1 \<subseteq> level_keys s ob"
    and "remaining_quantity order1 \<le> 0 \<or> orders lvl1 = []"
proof -
  have "(side order1 = side order \<and> level_keys s ob1 \<subseteq> level_keys s ob)
      \<and> \<not> (remaining_quantity order1 > 0 \<and> orders lvl1 \<noteq> [])"
  proof (rule match_level_rule[OF assms,
        where P = "\<lambda>a b l t g. side a = side order \<and> level_keys s b \<subseteq> level_keys s ob"],
      goal_cases)
    case 1
    show ?case by simp
  next
    case (2 a b l t g a' b' l' t' g')
    with match_step_side[OF 2(4)] match_step_level_keys[OF 2(4), of s] show ?case by auto
  qed
  then show "side order1 = side order" and "level_keys s ob1 \<subseteq> level_keys s ob"
    and "remaining_quantity order1 \<le> 0 \<or> orders lvl1 = []"
    by auto
qed

text \<open>
  Lines 318 and 319: \<open>if best_price in book and price_level.is_empty(): del
  book[best_price]\<close>.
\<close>

definition remove_empty_level :: "OrderSide \<Rightarrow> rat \<Rightarrow> PriceLevel \<Rightarrow> OrderBook \<Rightarrow> OrderBook" where
  "remove_empty_level cs best_price price_level self =
     (if sd_contains (side_book cs self) best_price \<and> is_empty price_level
      then set_side_book cs (sd_delitem best_price (side_book cs self)) self
      else self)"

lemma level_keys_remove_empty_level:
  "level_keys s (remove_empty_level cs bp lvl self) \<subseteq> level_keys s self"
  by (auto simp: remove_empty_level_def level_keys_def side_book_set_side_book keys_sd_delitem)

lemma level_keys_remove_empty_level_same:
  "orders lvl = [] \<Longrightarrow> bp \<notin> level_keys cs (remove_empty_level cs bp lvl self)"
  by (auto simp: remove_empty_level_def level_keys_def side_book_set_side_book keys_sd_delitem
      sd_contains_def is_empty_def)

text \<open>
  The outer loop of \<open>_match_order\<close> (lines 266 to 319). \<open>best_price\<close> is the first key of
  the dictionary and \<open>book[best_price]\<close> the level of its first item.
\<close>

function match_loop ::
  "Order \<Rightarrow> OrderBook \<Rightarrow> Trade list \<Rightarrow> Trade list \<Rightarrow>
   match_error + (Order \<times> OrderBook \<times> Trade list \<times> Trade list)" where
  "match_loop order order_book trades_local tlog =
     (if remaining_quantity order > 0 \<and> side_book (opposite (side order)) order_book \<noteq> [] then
        (case side_book (opposite (side order)) order_book of
           [] \<Rightarrow> Inr (order, order_book, trades_local, tlog)
         | (best_price, price_level) # _ \<Rightarrow>
             if beyond_limit order best_price then Inr (order, order_book, trades_local, tlog)
             else
               (case match_level best_price order order_book price_level trades_local tlog of
                  Inl x \<Rightarrow> Inl x
                | Inr (order1, book1, level1, trades1, tlog1) \<Rightarrow>
                    match_loop order1
                      (remove_empty_level (opposite (side order)) best_price level1 book1)
                      trades1 tlog1))
      else Inr (order, order_book, trades_local, tlog))"
  by pat_completeness auto
termination
proof (relation "measure (\<lambda>(order, ob, ts, tlog).
          card (level_keys (opposite (side order)) ob)
          + (if remaining_quantity order > 0 then 1 else 0))", goal_cases)
  case 1
  show ?case by simp
next
  case (2 order ob ts tlog x21 x22 bp lvl x2 order1 y book1 z level1 w trades1 tlog1)
  let ?cs = "opposite (side order)"
  let ?ob2 = "remove_empty_level ?cs bp level1 book1"
  from 2 have ml: "match_level bp order ob lvl ts tlog = Inr (order1, book1, level1, trades1, tlog1)"
    by simp
  have sd: "side order1 = side order" by (rule match_level_props(1)[OF ml])
  have sub: "level_keys ?cs ?ob2 \<subseteq> level_keys ?cs ob"
    using level_keys_remove_empty_level[of ?cs ?cs bp level1 book1]
      match_level_props(2)[OF ml, of ?cs] by blast
  have fin: "finite (level_keys ?cs ob)" by (simp add: level_keys_def)
  from 2 have mem: "bp \<in> level_keys ?cs ob" by (auto simp: level_keys_def)
  show ?case
  proof (cases "remaining_quantity order1 > 0")
    case True
    with match_level_props(3)[OF ml] have "orders level1 = []" by auto
    then have "bp \<notin> level_keys ?cs ?ob2" by (rule level_keys_remove_empty_level_same)
    with sub mem have "level_keys ?cs ?ob2 \<subset> level_keys ?cs ob" by blast
    then have "card (level_keys ?cs ?ob2) < card (level_keys ?cs ob)"
      using fin by (rule psubset_card_mono[rotated])
    with 2 sd show ?thesis by simp
  next
    case False
    have "card (level_keys ?cs ?ob2) \<le> card (level_keys ?cs ob)"
      using fin sub by (rule card_mono)
    with False 2 sd show ?thesis by simp
  qed
qed

text \<open>\<open>_match_order\<close>: the local list \<open>trades\<close> starts empty.\<close>

definition match_order ::
  "Order \<Rightarrow> OrderBook \<Rightarrow> Trade list \<Rightarrow> match_error + (Order \<times> OrderBook \<times> Trade list \<times> Trade list)" where
  "match_order order order_book tlog = match_loop order order_book [] tlog"

declare match_loop.simps [simp del]

lemma match_loop_stop:
  "\<not> (remaining_quantity order > 0 \<and> side_book (opposite (side order)) ob \<noteq> []) \<Longrightarrow>
   match_loop order ob ts tlog = Inr (order, ob, ts, tlog)"
  by (subst match_loop.simps) auto

lemma match_loop_break:
  "remaining_quantity order > 0 \<Longrightarrow> side_book (opposite (side order)) ob = (bp, lvl) # rest \<Longrightarrow>
   beyond_limit order bp \<Longrightarrow>
   match_loop order ob ts tlog = Inr (order, ob, ts, tlog)"
  by (subst match_loop.simps) simp

lemma match_loop_step:
  "remaining_quantity order > 0 \<Longrightarrow> side_book (opposite (side order)) ob = (bp, lvl) # rest \<Longrightarrow>
   \<not> beyond_limit order bp \<Longrightarrow>
   match_level bp order ob lvl ts tlog = Inr (o1, b1, l1, t1, g1) \<Longrightarrow>
   match_loop order ob ts tlog =
     match_loop o1 (remove_empty_level (opposite (side order)) bp l1 b1) t1 g1"
  by (subst match_loop.simps) simp

lemma match_loop_raise:
  "remaining_quantity order > 0 \<Longrightarrow> side_book (opposite (side order)) ob = (bp, lvl) # rest \<Longrightarrow>
   \<not> beyond_limit order bp \<Longrightarrow>
   match_level bp order ob lvl ts tlog = Inl x \<Longrightarrow>
   match_loop order ob ts tlog = Inl x"
  by (subst match_loop.simps) simp

text \<open>
  The four order types. Each function returns the order, the book, the list of trades it
  hands back and the engine's log; an exception of the matching loop passes through.
\<close>

definition process_market_order ::
  "Order \<Rightarrow> OrderBook \<Rightarrow> Trade list \<Rightarrow> match_error + (Order \<times> OrderBook \<times> Trade list \<times> Trade list)" where
  "process_market_order order order_book tlog =
     (case match_order order order_book tlog of
        Inl x \<Rightarrow> Inl x
      | Inr (order1, book1, trades1, tlog1) \<Rightarrow>
          if remaining_quantity order1 > 0
          then Inr (order1\<lparr>status := CANCELLED\<rparr>, book1, trades1, tlog1)
          else Inr (order1, book1, trades1, tlog1))"

definition process_limit_order ::
  "Order \<Rightarrow> OrderBook \<Rightarrow> Trade list \<Rightarrow> match_error + (Order \<times> OrderBook \<times> Trade list \<times> Trade list)" where
  "process_limit_order order order_book tlog =
     (case match_order order order_book tlog of
        Inl x \<Rightarrow> Inl x
      | Inr (order1, book1, trades1, tlog1) \<Rightarrow>
          if remaining_quantity order1 > 0
          then (case add_order book1 order1 of
                  Inl e \<Rightarrow> Inl (e, order1, book1, tlog1)
                | Inr book2 \<Rightarrow> Inr (order1, book2, trades1, tlog1))
          else Inr (order1, book1, trades1, tlog1))"

definition process_ioc_order ::
  "Order \<Rightarrow> OrderBook \<Rightarrow> Trade list \<Rightarrow> match_error + (Order \<times> OrderBook \<times> Trade list \<times> Trade list)" where
  "process_ioc_order order order_book tlog =
     (case match_order order order_book tlog of
        Inl x \<Rightarrow> Inl x
      | Inr (order1, book1, trades1, tlog1) \<Rightarrow>
          if remaining_quantity order1 > 0
          then Inr (order1\<lparr>status := CANCELLED\<rparr>, book1, trades1, tlog1)
          else Inr (order1, book1, trades1, tlog1))"

text \<open>
  The loop of \<open>_can_fill_completely\<close> over the items of the opposite side, best price
  first; \<open>remaining\<close> starts at \<open>order.quantity\<close>.
\<close>

fun can_fill_loop :: "Order \<Rightarrow> rat \<Rightarrow> PriceLevel SortedDict \<Rightarrow> bool" where
  "can_fill_loop order remaining [] = (remaining \<le> 0)"
| "can_fill_loop order remaining ((p, level) # rest) =
     (if beyond_limit order p then remaining \<le> 0
      else if total_quantity level \<ge> remaining then True
      else can_fill_loop order (dec_sub remaining (total_quantity level)) rest)"

definition can_fill_completely :: "Order \<Rightarrow> OrderBook \<Rightarrow> bool" where
  "can_fill_completely order order_book =
     can_fill_loop order (quantity order) (side_book (opposite (side order)) order_book)"

definition process_fok_order ::
  "Order \<Rightarrow> OrderBook \<Rightarrow> Trade list \<Rightarrow> match_error + (Order \<times> OrderBook \<times> Trade list \<times> Trade list)" where
  "process_fok_order order order_book tlog =
     (if \<not> can_fill_completely order order_book
      then Inr (order\<lparr>status := CANCELLED\<rparr>, order_book, [], tlog)
      else (case match_order order order_book tlog of
              Inl x \<Rightarrow> Inl x
            | Inr (order1, book1, trades1, tlog1) \<Rightarrow>
                if remaining_quantity order1 > 0
                then Inr (order1\<lparr>status := CANCELLED\<rparr>, book1, [], tlog1)
                else Inr (order1, book1, trades1, tlog1)))"

text \<open>
  The dictionary \<open>submit_order\<close> returns: the execution summary, or the rejection built in
  the exception handler. The order object itself is changed in place, so the model
  returns it beside the report.
\<close>

datatype SubmitResult =
  Executed string OrderStatus rat rat "Trade list"
  | Rejected string OrderStatus error

text \<open>The dispatch on the order type inside the \<open>try\<close> block of \<open>submit_order\<close>.\<close>

definition process_order ::
  "Order \<Rightarrow> OrderBook \<Rightarrow> Trade list \<Rightarrow> match_error + (Order \<times> OrderBook \<times> Trade list \<times> Trade list)" where
  "process_order order order_book tlog =
     (case order_type order of
        MARKET \<Rightarrow> process_market_order order order_book tlog
      | LIMIT \<Rightarrow> process_limit_order order order_book tlog
      | IOC \<Rightarrow> process_ioc_order order order_book tlog
      | FOK \<Rightarrow> process_fok_order order order_book tlog)"

text \<open>
  \<open>submit_order\<close> works on the book object that \<open>get_or_create_order_book\<close> returns and
  changes it in place. The registry shows those changes because it holds that object
  under the symbol: \<open>store_book\<close> copies the changed book into the registry where the
  symbol is registered, and does nothing for a symbol that is not.
\<close>

definition store_book :: "string \<Rightarrow> OrderBook \<Rightarrow> MatchingEngine \<Rightarrow> MatchingEngine" where
  "store_book smb book self =
     (case order_books self smb of
        None \<Rightarrow> self
      | Some _ \<Rightarrow> self\<lparr>order_books := (order_books self)(smb \<mapsto> book)\<rparr>)"

definition submit_order :: "MatchingEngine \<Rightarrow> Order \<Rightarrow> MatchingEngine \<times> Order \<times> SubmitResult" where
  "submit_order self order =
     (let (self1, order_book) = get_or_create_order_book self (symbol order);
          outcome = process_order order order_book (trades self1)
      in case outcome of
           Inr (order1, book1, trades1, tlog1) \<Rightarrow>
             ((store_book (symbol order) book1 self1)\<lparr>trades := tlog1\<rparr>,
              order1,
              Executed (order_id order1) (status order1) (filled_quantity order1)
                (remaining_quantity order1) trades1)
         | Inl (e, order1, book1, tlog1) \<Rightarrow>
             ((store_book (symbol order) book1 self1)\<lparr>trades := tlog1\<rparr>,
              order1\<lparr>status := REJECTED\<rparr>,
              Rejected (order_id order1) REJECTED e))"

text \<open>
  \<open>cancel_order\<close> returns the new engine state, the order it set to \<open>CANCELLED\<close> (if any)
  and the dictionary it answers with.
\<close>

datatype CancelResult = CancelOk string OrderStatus | CancelError string string

definition cancel_order ::
  "MatchingEngine \<Rightarrow> string \<Rightarrow> string \<Rightarrow> MatchingEngine \<times> Order option \<times> CancelResult" where
  "cancel_order self smb oid =
     (case order_books self smb of
        None \<Rightarrow> (self, None, CancelError oid ''No order book for symbol'')
      | Some order_book \<Rightarrow>
          (case remove_order order_book oid of
             (book1, Some order) \<Rightarrow>
               (self\<lparr>order_books := (order_books self)(smb \<mapsto> book1)\<rparr>,
                Some (order\<lparr>status := CANCELLED\<rparr>),
                CancelOk oid CANCELLED)
           | (book1, None) \<Rightarrow>
               (self\<lparr>order_books := (order_books self)(smb \<mapsto> book1)\<rparr>,
                None,
                CancelError oid ''Order not found'')))"

definition get_bbo :: "MatchingEngine \<Rightarrow> string \<Rightarrow> BBO_dict option" where
  "get_bbo self smb =
     (case order_books self smb of
        Some order_book \<Rightarrow> Some (BBO_to_dict (OrderBook_get_bbo order_book))
      | None \<Rightarrow> None)"

definition get_order_book_snapshot :: "MatchingEngine \<Rightarrow> string \<Rightarrow> int \<Rightarrow> OrderBookSnapshot option" where
  "get_order_book_snapshot self smb depth =
     (case order_books self smb of
        Some order_book \<Rightarrow> Some (get_snapshot order_book depth)
      | None \<Rightarrow> None)"

section \<open>Sequences of engine operations\<close>

text \<open>
  The two state-changing operations of the engine, and the state reached by running a
  list of them in order.
\<close>

datatype operation = Submit Order | Cancel string string

fun apply_op :: "MatchingEngine \<Rightarrow> operation \<Rightarrow> MatchingEngine" where
  "apply_op self (Submit order) = fst (submit_order self order)"
| "apply_op self (Cancel smb oid) = fst (cancel_order self smb oid)"

definition run :: "MatchingEngine \<Rightarrow> operation list \<Rightarrow> MatchingEngine" where
  "run self ops = foldl apply_op self ops"

lemma get_or_create_order_book_dom:
  "get_or_create_order_book self smb = (self1, ob) \<Longrightarrow>
   dom (order_books self1) = insert smb (dom (order_books self)) \<and> order_books self1 smb = Some ob"
  by (auto simp: get_or_create_order_book_def split: option.splits)

lemma submit_order_dom:
  "dom (order_books (fst (submit_order self order))) = insert (symbol order) (dom (order_books self))"
proof -
  obtain self1 ob where g: "get_or_create_order_book self (symbol order) = (self1, ob)"
    by (cases "get_or_create_order_book self (symbol order)")
  from get_or_create_order_book_dom[OF g] show ?thesis
    by (auto simp: submit_order_def store_book_def g Let_def split: sum.splits prod.splits)
qed

lemma cancel_order_dom:
  "dom (order_books (fst (cancel_order self smb oid))) = dom (order_books self)"
  by (auto simp: cancel_order_def split: option.splits prod.splits)

lemma apply_op_dom: "dom (order_books self) \<subseteq> dom (order_books (apply_op self op))"
  by (cases op) (auto simp: submit_order_dom cancel_order_dom)

lemma run_dom: "dom (order_books self) \<subseteq> dom (order_books (run self ops))"
  unfolding run_def
proof (induction ops arbitrary: self)
  case Nil
  show ?case by simp
next
  case (Cons op ops)
  from apply_op_dom[of self op] Cons[of "apply_op self op"] show ?case by auto
qed

text \<open>
  C10. \<open>submit_order\<close> begins with \<open>get_or_create_order_book\<close>, which registers an empty
  book under the symbol when there is none and returns the registered book; the book is
  in the registry when \<open>submit_order\<close> returns, by either exit; no operation removes a
  key of the registry. So once an order for a symbol has been submitted, whatever the
  engine did with it, every later \<open>get_bbo\<close> and \<open>get_order_book_snapshot\<close> for that
  symbol, after any further submissions and cancellations, returns a value and not
  \<open>None\<close>.
\<close>

theorem submitted_symbol_keeps_its_book:
  "order_books (fst (get_or_create_order_book self (symbol order))) (symbol order)
     = Some (snd (get_or_create_order_book self (symbol order)))
   \<and> snd (get_or_create_order_book self (symbol order))
     = (case order_books self (symbol order) of
          None \<Rightarrow> OrderBook_init (symbol order) | Some order_book \<Rightarrow> order_book)
   \<and> symbol order \<in> dom (order_books (fst (submit_order self order)))
   \<and> dom (order_books (fst (submit_order self order)))
       \<subseteq> dom (order_books (run (fst (submit_order self order)) ops))
   \<and> get_bbo (run (fst (submit_order self order)) ops) (symbol order) \<noteq> None
   \<and> get_order_book_snapshot (run (fst (submit_order self order)) ops) (symbol order) depth \<noteq> None"
proof -
  obtain self1 ob where g: "get_or_create_order_book self (symbol order) = (self1, ob)"
    by (cases "get_or_create_order_book self (symbol order)")
  have 1: "order_books (fst (get_or_create_order_book self (symbol order))) (symbol order)
     = Some (snd (get_or_create_order_book self (symbol order)))"
    using get_or_create_order_book_dom[OF g] by (simp add: g)
  have 2: "snd (get_or_create_order_book self (symbol order))
     = (case order_books self (symbol order) of
          None \<Rightarrow> OrderBook_init (symbol order) | Some order_book \<Rightarrow> order_book)"
    by (simp add: get_or_create_order_book_def split: option.splits)
  have 3: "symbol order \<in> dom (order_books (fst (submit_order self order)))"
    by (simp add: submit_order_dom)
  have 4: "dom (order_books (fst (submit_order self order)))
       \<subseteq> dom (order_books (run (fst (submit_order self order)) ops))"
    by (rule run_dom)
  from 3 4 obtain ob' where
    "order_books (run (fst (submit_order self order)) ops) (symbol order) = Some ob'"
    by blast
  then have 5: "get_bbo (run (fst (submit_order self order)) ops) (symbol order) \<noteq> None
   \<and> get_order_book_snapshot (run (fst (submit_order self order)) ops) (symbol order) depth \<noteq> None"
    by (simp add: get_bbo_def get_order_book_snapshot_def)
  from 1 2 3 4 5 show ?thesis by (intro conjI) simp_all
qed

text \<open>
  C8 (as the code has it). Construction fails exactly for a non-positive quantity, a
  missing price on an order that is not a MARKET order, a price on a MARKET order, and a
  non-positive price; the symbol plays no part. Otherwise it succeeds, with the fields
  as given, the remaining quantity computed by the decimal subtraction of the filled
  quantity from the quantity, and the status passed in, which is \<open>PENDING\<close> when the
  caller leaves it at its default (\<open>new_order\<close>).
\<close>

theorem order_construction_checks:
  "(isl (Order_init oid smb ty sd qty pr ts st filled) \<longleftrightarrow>
      (qty \<le> 0 \<or> (ty \<noteq> MARKET \<and> pr = None) \<or> (ty = MARKET \<and> pr \<noteq> None)
       \<or> (\<exists>p. pr = Some p \<and> p \<le> 0)))
   \<and> (\<not> isl (Order_init oid smb ty sd qty pr ts st filled) \<longrightarrow>
        Order_init oid smb ty sd qty pr ts st filled =
          Inr \<lparr>order_id = oid, symbol = smb, order_type = ty, side = sd, quantity = qty,
               price = pr, timestamp = ts, status = st, filled_quantity = filled,
               remaining_quantity = dec_sub qty filled\<rparr>)
   \<and> (\<not> isl (new_order oid smb ty sd qty pr ts) \<longrightarrow>
        new_order oid smb ty sd qty pr ts =
          Inr \<lparr>order_id = oid, symbol = smb, order_type = ty, side = sd, quantity = qty,
               price = pr, timestamp = ts, status = PENDING, filled_quantity = 0,
               remaining_quantity = dec_sub qty 0\<rparr>)"
  by (cases pr) (auto simp: Order_init_def new_order_def Let_def)

theorem order_construction_checks_witness:
  "\<not> isl (Order_init ''o1'' ''BTC-USDT'' LIMIT BUY 1 (Some 50000) 0 PENDING 0)
   \<and> isl (Order_init ''o1'' ''BTC-USDT'' LIMIT BUY (-1) (Some 50000) 0 PENDING 0)
   \<and> new_order ''o1'' ''BTC-USDT'' LIMIT BUY 1 (Some 50000) 0 =
        Inr \<lparr>order_id = ''o1'', symbol = ''BTC-USDT'', order_type = LIMIT, side = BUY,
             quantity = 1, price = Some 50000, timestamp = 0, status = PENDING,
             filled_quantity = 0, remaining_quantity = 1\<rparr>"
  using order_construction_checks[of "''o1''" "''BTC-USDT''" LIMIT BUY 1 "Some 50000" 0 PENDING 0]
    order_construction_checks[of "''o1''" "''BTC-USDT''" LIMIT BUY "-1" "Some 50000" 0 PENDING 0]
  by (simp add: new_order_def dec_defs)

text \<open>
  C8, as stated, fails on the symbol: an order with the empty symbol is constructed.
\<close>

theorem empty_symbol_accepted:
  "new_order ''o1'' '''' LIMIT BUY 1 (Some 50000) 0 =
     Inr \<lparr>order_id = ''o1'', symbol = '''', order_type = LIMIT, side = BUY,
          quantity = 1, price = Some 50000, timestamp = 0, status = PENDING,
          filled_quantity = 0, remaining_quantity = 1\<rparr>"
  by (simp add: new_order_def Order_init_def dec_defs)

text \<open>
  C7 (as the code has it). For a symbol whose book exists, \<open>get_bbo\<close> returns a
  dictionary; when the bid map is empty its \<open>best_bid\<close> is \<open>None\<close> and its
  \<open>best_bid_quantity\<close> is the string of the decimal 0, and likewise for the asks.
\<close>

theorem bbo_of_empty_side:
  assumes "order_books self smb = Some order_book"
  shows "\<exists>d. get_bbo self smb = Some d
     \<and> (bids order_book = [] \<longrightarrow> d_best_bid d = JNone \<and> d_best_bid_quantity d = JStr 0)
     \<and> (asks order_book = [] \<longrightarrow> d_best_ask d = JNone \<and> d_best_ask_quantity d = JStr 0)"
  using assms
  by (simp add: get_bbo_def BBO_to_dict_def OrderBook_get_bbo_def get_best_bid_def
      get_best_ask_def top_quantity_def truthy_def str_or_None_def Let_def)

theorem bbo_of_empty_side_witness:
  "order_books \<lparr>order_books = [''BTC-USDT'' \<mapsto> OrderBook_init ''BTC-USDT''], trades = []\<rparr>
      ''BTC-USDT'' = Some (OrderBook_init ''BTC-USDT'')
   \<and> bids (OrderBook_init ''BTC-USDT'') = []
   \<and> asks (OrderBook_init ''BTC-USDT'') = []
   \<and> (\<exists>d. get_bbo \<lparr>order_books = [''BTC-USDT'' \<mapsto> OrderBook_init ''BTC-USDT''], trades = []\<rparr>
             ''BTC-USDT'' = Some d
          \<and> d_best_bid d = JNone \<and> d_best_bid_quantity d = JStr 0
          \<and> d_best_ask d = JNone \<and> d_best_ask_quantity d = JStr 0)"
  using bbo_of_empty_side[of
      "\<lparr>order_books = [''BTC-USDT'' \<mapsto> OrderBook_init ''BTC-USDT''], trades = []\<rparr>"
      "''BTC-USDT''" "OrderBook_init ''BTC-USDT''"]
  by (simp add: OrderBook_init_def)

text \<open>
  C7, as stated, fails on the quantity fields: with both halves of the book empty they
  are the string of 0, not \<open>None\<close>.
\<close>

theorem bbo_quantity_not_None:
  "get_bbo \<lparr>order_books = [''BTC-USDT'' \<mapsto> OrderBook_init ''BTC-USDT''], trades = []\<rparr>
     ''BTC-USDT'' =
   Some \<lparr>d_symbol = ''BTC-USDT'', d_best_bid = JNone, d_best_bid_quantity = JStr 0,
         d_best_ask = JNone, d_best_ask_quantity = JStr 0\<rparr>"
  by (simp add: get_bbo_def BBO_to_dict_def OrderBook_get_bbo_def get_best_bid_def
      get_best_ask_def top_quantity_def truthy_def str_or_None_def Let_def OrderBook_init_def)

section \<open>Facts about the dictionary operations\<close>

lemma sd_contains_map_of: "sd_contains d k \<longleftrightarrow> map_of d k \<noteq> None"
  by (simp add: sd_contains_def map_of_eq_None_iff)

lemma map_of_sd_modify:
  "map_of (sd_modify k f d) k' = (if k' = k then map_option f (map_of d k) else map_of d k')"
  by (induction d) (auto simp: sd_modify_def)

lemma sd_modify_sd_modify: "sd_modify k g (sd_modify k f d) = sd_modify k (\<lambda>v. g (f v)) d"
  by (induction d) (auto simp: sd_modify_def)

lemma sd_delitem_sd_modify: "sd_delitem k (sd_modify k f d) = sd_delitem k d"
  by (induction d) (auto simp: sd_modify_def sd_delitem_def split: if_splits)

lemma sd_modify_sd_delitem: "sd_modify k f (sd_delitem k d) = sd_delitem k d"
  by (induction d) (auto simp: sd_modify_def sd_delitem_def)

lemma map_of_sd_delitem:
  "map_of (sd_delitem k d) k' = (if k' = k then None else map_of d k')"
  by (induction d) (auto simp: sd_delitem_def)

lemma sd_modify_absent: "map_of d k = None \<Longrightarrow> sd_modify k f d = d"
  by (induction d) (auto simp: sd_modify_def split: if_splits)

lemma sd_delitem_absent: "map_of d k = None \<Longrightarrow> sd_delitem k d = d"
  by (induction d) (auto simp: sd_delitem_def split: if_splits)

lemma set_side_book_side_book: "set_side_book sd (side_book sd self) self = self"
  by (simp add: set_side_book_def side_book_def)

lemma set_side_book_twice:
  "set_side_book sd b2 (set_side_book sd b1 self) = set_side_book sd b2 self"
  by (simp add: set_side_book_def)

lemma orders_ob_set_side_book: "orders_ob (set_side_book sd book self) = orders_ob self"
  by (simp add: set_side_book_def)

lemma symbol_ob_set_side_book: "symbol_ob (set_side_book sd book self) = symbol_ob self"
  by (simp add: set_side_book_def)

lemma opposite_neq: "opposite sd \<noteq> sd" and opposite_opposite: "opposite (opposite sd) = sd"
  by (cases sd; simp add: opposite_def)+


text \<open>The order a successful \<open>fill\<close> returns.\<close>

definition filled :: "Order \<Rightarrow> rat \<Rightarrow> Order" where
  "filled self q =
     (let self1 = self\<lparr>filled_quantity := dec_add (filled_quantity self) q,
                      remaining_quantity := dec_sub (remaining_quantity self) q\<rparr>
      in if remaining_quantity self1 = 0 then self1\<lparr>status := FILLED\<rparr>
         else if filled_quantity self1 > 0 then self1\<lparr>status := PARTIAL\<rparr>
         else self1)"

lemma fill_filled: "0 < q \<Longrightarrow> q \<le> remaining_quantity self \<Longrightarrow> fill self q = Inr (filled self q)"
  by (simp add: fill_def filled_def Let_def)

lemma fill_Inr_filled: "fill self q = Inr self1 \<Longrightarrow> self1 = filled self q"
  by (auto simp: fill_def filled_def Let_def split: if_splits)

lemma filled_fields:
  "remaining_quantity (filled self q) = dec_sub (remaining_quantity self) q"
  "filled_quantity (filled self q) = dec_add (filled_quantity self) q"
  "side (filled self q) = side self"
  "price (filled self q) = price self"
  "order_id (filled self q) = order_id self"
  "symbol (filled self q) = symbol self"
  "order_type (filled self q) = order_type self"
  "quantity (filled self q) = quantity self"
  "timestamp (filled self q) = timestamp self"
  by (simp_all add: filled_def Let_def)

lemma filled_status:
  "status (filled self q) =
     (if dec_sub (remaining_quantity self) q = 0 then FILLED
      else if dec_add (filled_quantity self) q > 0 then PARTIAL else status self)"
  by (simp add: filled_def Let_def)

section \<open>Well-formed books\<close>

text \<open>
  A resting order of the level at price \<open>p\<close> on side \<open>sd\<close> has that side and price,
  quantity left to fill, a status that is not terminal, and is a LIMIT order. A level is
  well formed when its queue holds only such orders; nothing is said of its total, which
  the rounding of the decimal context separates from the sum over the queue. A side is
  well formed when its keys are in the iteration order of the dictionary without
  repetition and every level is well formed.
\<close>

definition order_live :: "OrderSide \<Rightarrow> rat \<Rightarrow> Order \<Rightarrow> bool" where
  "order_live sd p x =
     (side x = sd \<and> price x = Some p \<and> 0 < remaining_quantity x
      \<and> (status x = PENDING \<or> status x = PARTIAL) \<and> order_type x = LIMIT)"

definition level_ok :: "OrderSide \<Rightarrow> rat \<Rightarrow> PriceLevel \<Rightarrow> bool" where
  "level_ok sd p level = list_all (order_live sd p) (orders level)"

definition side_ok :: "OrderSide \<Rightarrow> PriceLevel SortedDict \<Rightarrow> bool" where
  "side_ok sd book =
     (sorted (map (\<lambda>kv. side_key sd (fst kv)) book) \<and> distinct (map fst book)
      \<and> list_all (\<lambda>kv. level_ok sd (fst kv) (snd kv)) book)"

definition uncrossed :: "OrderBook \<Rightarrow> bool" where
  "uncrossed self =
     list_all (\<lambda>b. list_all (\<lambda>a. b < a) (map fst (asks self))) (map fst (bids self))"

text \<open>Every identifier in the index is registered for a LIMIT order.\<close>

definition index_ok :: "OrderBook \<Rightarrow> bool" where
  "index_ok self = (\<forall>oid x. orders_ob self oid = Some x \<longrightarrow> order_type x = LIMIT)"

definition book_ok :: "OrderBook \<Rightarrow> bool" where
  "book_ok self =
     (side_ok BUY (bids self) \<and> side_ok SELL (asks self) \<and> uncrossed self \<and> index_ok self)"

lemma book_ok_side_ok: "book_ok self \<Longrightarrow> side_ok sd (side_book sd self)"
  by (cases sd) (simp_all add: book_ok_def side_book_def)

lemma side_ok_map_of: "side_ok sd d \<Longrightarrow> map_of d k = Some level \<Longrightarrow> level_ok sd k level"
  by (auto simp: side_ok_def list_all_iff dest: map_of_SomeD)

lemma side_ok_sd_delitem: "side_ok sd d \<Longrightarrow> side_ok sd (sd_delitem k d)"
  by (auto simp: side_ok_def sd_delitem_def list_all_iff sorted_filter distinct_map_filter)

lemma side_ok_sd_modify:
  assumes "side_ok sd d" and "level_ok sd k level"
  shows "side_ok sd (sd_modify k (\<lambda>_. level) d)"
proof -
  have 1: "map fst (sd_modify k (\<lambda>_. level) d) = map fst d"
    by (rule map_fst_sd_modify)
  have 2: "map (\<lambda>kv. side_key sd (fst kv)) (sd_modify k (\<lambda>_. level) d)
         = map (\<lambda>kv. side_key sd (fst kv)) d"
    using arg_cong[OF 1, of "map (side_key sd)"] by (simp add: comp_def)
  have 3: "list_all (\<lambda>kv. level_ok sd (fst kv) (snd kv)) (sd_modify k (\<lambda>_. level) d)"
    using assms by (auto simp: side_ok_def sd_modify_def list_all_iff)
  show ?thesis using assms(1) 1 2 3 by (simp add: side_ok_def)
qed

lemma uncrossed_iff:
  "uncrossed self \<longleftrightarrow> (\<forall>b\<in>level_keys BUY self. \<forall>a\<in>level_keys SELL self. b < a)"
  by (auto simp: uncrossed_def level_keys_def side_book_def list_all_iff)

lemma uncrossed_mono:
  "uncrossed self \<Longrightarrow> (\<And>s. level_keys s self1 \<subseteq> level_keys s self) \<Longrightarrow> uncrossed self1"
  unfolding uncrossed_iff by blast

lemma side_book_orders_ob_update: "side_book s (self\<lparr>orders_ob := m\<rparr>) = side_book s self"
  by (simp add: side_book_def)

section \<open>One matching step\<close>

text \<open>
  In the inner loop the level object \<open>price_level\<close> is the object the book holds under
  \<open>best_price\<close> on the opposite side, for as long as the book holds that key; once
  \<open>update_order_quantity\<close> has deleted the key (the level's total having reached zero)
  the loop goes on with the object alone.
\<close>

definition synced :: "OrderSide \<Rightarrow> rat \<Rightarrow> OrderBook \<Rightarrow> PriceLevel \<Rightarrow> bool" where
  "synced cs bp ob lvl =
     (level_ok cs bp lvl
      \<and> (case map_of (side_book cs ob) bp of None \<Rightarrow> True | Some l \<Rightarrow> l = lvl))"

definition fill_qty :: "Order \<Rightarrow> Order \<Rightarrow> rat" where
  "fill_qty order r = min (remaining_quantity order) (remaining_quantity r)"

text \<open>
  The level object and the book after the head \<open>r\<close> of the queue has been filled against
  the incoming order. The head leaves the queue and the index when it is filled
  completely. The total is updated through the book, so only while the key is present,
  and the key is deleted when the new total is zero.
\<close>

definition level_after :: "bool \<Rightarrow> Order \<Rightarrow> PriceLevel \<Rightarrow> Order \<Rightarrow> Order list \<Rightarrow> PriceLevel" where
  "level_after present order lvl r rest =
     lvl\<lparr>orders := (if remaining_quantity r \<le> remaining_quantity order then rest
                     else filled r (fill_qty order r) # rest),
         total_quantity := (if present
                            then dec_add (total_quantity lvl) (dec_neg (fill_qty order r))
                            else total_quantity lvl)\<rparr>"

definition book_after :: "rat \<Rightarrow> Order \<Rightarrow> OrderBook \<Rightarrow> PriceLevel \<Rightarrow> Order \<Rightarrow> Order list \<Rightarrow> OrderBook" where
  "book_after bp order ob lvl r rest =
     (set_side_book (opposite (side order))
        (if dec_add (total_quantity lvl) (dec_neg (fill_qty order r)) = 0
         then sd_delitem bp (side_book (opposite (side order)) ob)
         else sd_modify bp (\<lambda>_. level_after True order lvl r rest)
                (side_book (opposite (side order)) ob))
        ob)
     \<lparr>orders_ob := (if remaining_quantity r \<le> remaining_quantity order
                    then (orders_ob ob)(order_id r := None) else orders_ob ob)\<rparr>"

lemma match_step_synced:
  assumes sy: "synced (opposite (side order)) bp ob lvl"
    and pos: "0 < remaining_quantity order"
    and hd: "orders lvl = r # rest"
  shows "match_step bp order ob lvl ts tlog =
           Inr (filled order (fill_qty order r), book_after bp order ob lvl r rest,
                level_after (sd_contains (side_book (opposite (side order)) ob) bp) order lvl r rest,
                ts @ [step_trade bp order r (fill_qty order r)],
                tlog @ [step_trade bp order r (fill_qty order r)])"
    and "0 < fill_qty order r"
proof -
  let ?cs = "opposite (side order)"
  let ?fq = "fill_qty order r"
  let ?d = "side_book ?cs ob"
  from sy hd have live: "order_live ?cs bp r"
    by (simp add: synced_def level_ok_def)
  from live have rpos: "0 < remaining_quantity r" and rs: "side r = ?cs" and rp: "price r = Some bp"
    by (simp_all add: order_live_def)
  show fpos: "0 < ?fq" using pos rpos by (simp add: fill_qty_def)
  have f1: "fill order ?fq = Inr (filled order ?fq)"
    by (rule fill_filled[OF fpos]) (simp add: fill_qty_def)
  have f2: "fill r ?fq = Inr (filled r ?fq)"
    by (rule fill_filled[OF fpos]) (simp add: fill_qty_def)
  have r0: "remaining_quantity (filled r ?fq) = 0 \<longleftrightarrow> remaining_quantity r \<le> remaining_quantity order"
    using dec_sub_eq_0_iff[of ?fq "remaining_quantity r"]
    by (auto simp: filled_fields fill_qty_def min_def)
  let ?r1 = "filled r ?fq"
  have r1: "side ?r1 = ?cs" "price ?r1 = Some bp" "order_id ?r1 = order_id r"
    by (simp_all add: filled_fields rs rp)
  have l3: "step_level3 bp order ob lvl ?r1 rest ?fq =
      level_after (sd_contains ?d bp) order lvl r rest"
    by (simp add: step_level3_def step_level2_def step_book1_def store_level_def
        side_book_set_side_book sd_contains_def keys_sd_modify r1 r0 level_after_def
        update_quantity_def)
  have b3: "step_book3 bp order ob lvl ?r1 rest ?fq = book_after bp order ob lvl r rest"
  proof (cases "map_of ?d bp")
    case None
    then have a: "sd_modify bp f ?d = ?d" "sd_delitem bp ?d = ?d" for f
      by (simp_all add: sd_modify_absent sd_delitem_absent)
    show ?thesis
      by (simp add: step_book3_def step_book2_def step_book1_def store_level_def
          update_order_quantity_def side_book_set_side_book r1 r0 None a book_after_def
          set_side_book_side_book set_side_book_twice orders_ob_set_side_book
          side_book_orders_ob_update Let_def)
  next
    case (Some l)
    with sy have l: "l = lvl" by (simp add: synced_def)
    show ?thesis
      by (simp add: step_book3_def step_book2_def step_book1_def store_level_def
          update_order_quantity_def side_book_set_side_book r1 r0 Some l book_after_def
          l3 sd_contains_map_of set_side_book_twice orders_ob_set_side_book map_of_sd_modify map_of_sd_delitem
          sd_modify_sd_modify sd_delitem_sd_modify sd_modify_sd_delitem
          update_quantity_def is_empty_def level_after_def Let_def)
  qed
  show "match_step bp order ob lvl ts tlog =
           Inr (filled order ?fq, book_after bp order ob lvl r rest,
                level_after (sd_contains ?d bp) order lvl r rest,
                ts @ [step_trade bp order r ?fq], tlog @ [step_trade bp order r ?fq])"
    using match_step_Cons[OF hd f1[unfolded fill_qty_def] f2[unfolded fill_qty_def], of bp ob ts tlog]
    by (simp add: l3[unfolded fill_qty_def] b3[unfolded fill_qty_def] fill_qty_def)
qed

lemma side_book_book_after:
  "side_book s (book_after bp order ob lvl r rest) =
     (if s = opposite (side order)
      then (if dec_add (total_quantity lvl) (dec_neg (fill_qty order r)) = 0
            then sd_delitem bp (side_book s ob)
            else sd_modify bp (\<lambda>_. level_after True order lvl r rest) (side_book s ob))
      else side_book s ob)"
  by (simp add: book_after_def side_book_orders_ob_update side_book_set_side_book)

lemma level_keys_book_after: "level_keys s (book_after bp order ob lvl r rest) \<subseteq> level_keys s ob"
  by (auto simp: level_keys_def side_book_book_after keys_sd_delitem keys_sd_modify)

lemma orders_ob_book_after:
  "orders_ob (book_after bp order ob lvl r rest) =
     (if remaining_quantity r \<le> remaining_quantity order
      then (orders_ob ob)(order_id r := None) else orders_ob ob)"
  by (simp add: book_after_def)

lemma symbol_ob_book_after: "symbol_ob (book_after bp order ob lvl r rest) = symbol_ob ob"
  by (simp add: book_after_def symbol_ob_set_side_book)

lemma level_after_ok:
  assumes lok: "level_ok cs bp lvl" and hd: "orders lvl = r # rest"
    and pos: "0 < remaining_quantity order"
  shows "level_ok cs bp (level_after present order lvl r rest)"
proof -
  from lok hd have live: "order_live cs bp r" and lrest: "list_all (order_live cs bp) rest"
    by (simp_all add: level_ok_def)
  show ?thesis
  proof (cases "remaining_quantity r \<le> remaining_quantity order")
    case True
    with lrest show ?thesis by (simp add: level_ok_def level_after_def)
  next
    case False
    then have fq: "fill_qty order r = remaining_quantity order" by (simp add: fill_qty_def)
    have "0 < dec_sub (remaining_quantity r) (remaining_quantity order)"
      using False by (intro dec_sub_pos) simp
    then have "order_live cs bp (filled r (remaining_quantity order))"
      using live by (auto simp: order_live_def filled_fields filled_status)
    with False lrest show ?thesis
      by (simp add: level_ok_def level_after_def fq)
  qed
qed

lemma book_after_ok:
  assumes bok: "book_ok ob"
    and sy: "synced (opposite (side order)) bp ob lvl"
    and pos: "0 < remaining_quantity order"
    and hd: "orders lvl = r # rest"
  shows "book_ok (book_after bp order ob lvl r rest)"
    and "synced (opposite (side order)) bp (book_after bp order ob lvl r rest)
           (level_after (sd_contains (side_book (opposite (side order)) ob) bp) order lvl r rest)"
proof -
  let ?cs = "opposite (side order)"
  let ?ob1 = "book_after bp order ob lvl r rest"
  from sy have lok: "level_ok ?cs bp lvl" by (simp add: synced_def)
  have sides: "side_ok s (side_book s ?ob1)" for s
  proof (cases "s = ?cs")
    case False
    then show ?thesis using book_ok_side_ok[OF bok, of s] by (simp add: side_book_book_after)
  next
    case True
    from side_ok_sd_delitem[OF book_ok_side_ok[OF bok, of ?cs], of bp]
      side_ok_sd_modify[OF book_ok_side_ok[OF bok, of ?cs] level_after_ok[OF lok hd pos, of True]]
    show ?thesis using True by (simp add: side_book_book_after)
  qed
  have unc: "uncrossed ?ob1"
    by (rule uncrossed_mono[of ob]) (use bok in \<open>simp_all add: book_ok_def level_keys_book_after\<close>)
  have idx: "index_ok ?ob1"
    using bok by (auto simp: book_ok_def index_ok_def orders_ob_book_after split: if_splits)
  from sides[of BUY] sides[of SELL] unc idx show "book_ok ?ob1"
    by (simp add: book_ok_def side_book_def)
  show "synced ?cs bp ?ob1 (level_after (sd_contains (side_book ?cs ob) bp) order lvl r rest)"
    using level_after_ok[OF lok hd pos]
    by (cases "map_of (side_book ?cs ob) bp")
      (simp_all add: synced_def side_book_book_after map_of_sd_delitem map_of_sd_modify
        sd_contains_map_of)
qed

section \<open>Rules for the two loops of the matching algorithm\<close>

text \<open>
  Inner loop, on a well-formed book: it ends without an exception, in a well-formed book;
  a property \<open>P\<close> of the loop state that every fill of the head keeps holds at the end.
\<close>

lemma match_level_rule_ok:
  assumes "book_ok ob" and "synced (opposite (side order)) bp ob lvl"
    and "P order ob lvl ts tlog"
    and "\<And>a b l t g r rest.
          P a b l t g \<Longrightarrow> book_ok b \<Longrightarrow> side a = side order \<Longrightarrow>
          synced (opposite (side order)) bp b l \<Longrightarrow>
          0 < remaining_quantity a \<Longrightarrow> orders l = r # rest \<Longrightarrow>
          P (filled a (fill_qty a r)) (book_after bp a b l r rest)
            (level_after (sd_contains (side_book (opposite (side order)) b) bp) a l r rest)
            (t @ [step_trade bp a r (fill_qty a r)]) (g @ [step_trade bp a r (fill_qty a r)])"
  shows "\<exists>a b l t g. match_level bp order ob lvl ts tlog = Inr (a, b, l, t, g)
           \<and> P a b l t g \<and> book_ok b \<and> synced (opposite (side order)) bp b l
           \<and> side a = side order
           \<and> \<not> (0 < remaining_quantity a \<and> orders l \<noteq> [])"
  using assms
proof (induction bp order ob lvl ts tlog rule: match_level.induct)
  case (1 bp order ob lvl ts tlog)
  let ?cs = "opposite (side order)"
  show ?case
  proof (cases "0 < remaining_quantity order \<and> orders lvl \<noteq> []")
    case False
    with match_level_stop[of order lvl bp ob ts tlog] "1.prems"(1,2,3) show ?thesis by simp
  next
    case True
    then obtain r rest where hd: "orders lvl = r # rest" by (cases "orders lvl") auto
    let ?a = "filled order (fill_qty order r)"
    let ?b = "book_after bp order ob lvl r rest"
    let ?l = "level_after (sd_contains (side_book ?cs ob) bp) order lvl r rest"
    let ?t = "ts @ [step_trade bp order r (fill_qty order r)]"
    let ?g = "tlog @ [step_trade bp order r (fill_qty order r)]"
    have st: "match_step bp order ob lvl ts tlog = Inr (?a, ?b, ?l, ?t, ?g)"
      using match_step_synced(1)[OF "1.prems"(2) _ hd] True by simp
    have sd: "side ?a = side order" by (simp add: filled_fields)
    have bok: "book_ok ?b"
      using book_after_ok(1)[OF "1.prems"(1,2) _ hd] True by simp
    have sy2: "synced (opposite (side ?a)) bp ?b ?l"
      using book_after_ok(2)[OF "1.prems"(1,2) _ hd] True by (simp add: sd)
    have P2: "P ?a ?b ?l ?t ?g"
      using "1.prems"(4)[OF "1.prems"(3) "1.prems"(1) refl "1.prems"(2) _ hd] True by simp
    have step2: "\<And>a b l t g r rest.
          P a b l t g \<Longrightarrow> book_ok b \<Longrightarrow> side a = side ?a \<Longrightarrow>
          synced (opposite (side ?a)) bp b l \<Longrightarrow>
          0 < remaining_quantity a \<Longrightarrow> orders l = r # rest \<Longrightarrow>
          P (filled a (fill_qty a r)) (book_after bp a b l r rest)
            (level_after (sd_contains (side_book (opposite (side ?a)) b) bp) a l r rest)
            (t @ [step_trade bp a r (fill_qty a r)]) (g @ [step_trade bp a r (fill_qty a r)])"
      using "1.prems"(4) by (simp add: sd)
    from "1.IH"[OF True st refl refl refl refl bok sy2 P2 step2]
    obtain a b l t g where res: "match_level bp ?a ?b ?l ?t ?g = Inr (a, b, l, t, g)"
      and rest: "P a b l t g" "book_ok b" "synced (opposite (side ?a)) bp b l"
        "side a = side ?a" "\<not> (0 < remaining_quantity a \<and> orders l \<noteq> [])"
      by blast
    have "match_level bp order ob lvl ts tlog = Inr (a, b, l, t, g)"
      using match_level_step[OF _ _ st] True res by simp
    with rest sd show ?thesis by simp
  qed
qed

lemma side_book_remove_empty_level:
  "side_book s (remove_empty_level cs bp lvl ob) = side_book s ob
   \<or> (s = cs \<and> side_book s (remove_empty_level cs bp lvl ob) = sd_delitem bp (side_book s ob))"
  by (auto simp: remove_empty_level_def side_book_set_side_book)

lemma orders_ob_remove_empty_level: "orders_ob (remove_empty_level cs bp lvl ob) = orders_ob ob"
  by (simp add: remove_empty_level_def orders_ob_set_side_book)

lemma symbol_ob_remove_empty_level: "symbol_ob (remove_empty_level cs bp lvl ob) = symbol_ob ob"
  by (simp add: remove_empty_level_def symbol_ob_set_side_book)

lemma side_book_remove_empty_level_other:
  "s \<noteq> cs \<Longrightarrow> side_book s (remove_empty_level cs bp lvl ob) = side_book s ob"
  by (auto simp: remove_empty_level_def side_book_set_side_book)

lemma remove_empty_level_ok:
  assumes "book_ok ob"
  shows "book_ok (remove_empty_level cs bp lvl ob)"
proof -
  let ?ob1 = "remove_empty_level cs bp lvl ob"
  have sides: "side_ok s (side_book s ?ob1)" for s
    using side_book_remove_empty_level[of s cs bp lvl ob] book_ok_side_ok[OF assms, of s]
      side_ok_sd_delitem[of s "side_book s ob" bp] by auto
  have unc: "uncrossed ?ob1"
    by (rule uncrossed_mono[of ob])
      (use assms in \<open>simp_all add: book_ok_def level_keys_remove_empty_level\<close>)
  have idx: "index_ok ?ob1"
    using assms by (simp add: book_ok_def index_ok_def orders_ob_remove_empty_level)
  from sides[of BUY] sides[of SELL] unc idx show ?thesis
    by (simp add: book_ok_def side_book_def)
qed

text \<open>
  Outer loop, on a well-formed book: it ends without an exception, in a well-formed book,
  with the order filled, the opposite side empty, or the best opposite price beyond the
  order's limit; a property \<open>Q\<close> that every pass through its body keeps holds at the end.
\<close>

definition loop_done :: "Order \<Rightarrow> OrderBook \<Rightarrow> bool" where
  "loop_done order ob =
     (remaining_quantity order \<le> 0
      \<or> (case side_book (opposite (side order)) ob of
            [] \<Rightarrow> True
          | (bp, _) # _ \<Rightarrow> beyond_limit order bp))"

lemma match_loop_rule_ok:
  assumes "book_ok ob" and "Q order ob ts tlog"
    and "\<And>a b t g bp lvl rest a' b' l' t' g'.
          Q a b t g \<Longrightarrow> book_ok b \<Longrightarrow> side a = side order \<Longrightarrow>
          0 < remaining_quantity a \<Longrightarrow>
          side_book (opposite (side order)) b = (bp, lvl) # rest \<Longrightarrow>
          \<not> beyond_limit a bp \<Longrightarrow>
          match_level bp a b lvl t g = Inr (a', b', l', t', g') \<Longrightarrow>
          book_ok b' \<Longrightarrow> synced (opposite (side order)) bp b' l' \<Longrightarrow>
          \<not> (0 < remaining_quantity a' \<and> orders l' \<noteq> []) \<Longrightarrow>
          Q a' (remove_empty_level (opposite (side order)) bp l' b') t' g'"
  shows "\<exists>a b t g. match_loop order ob ts tlog = Inr (a, b, t, g)
           \<and> Q a b t g \<and> book_ok b \<and> side a = side order \<and> loop_done a b"
  using assms
proof (induction order ob ts tlog rule: match_loop.induct)
  case (1 order ob ts tlog)
  let ?cs = "opposite (side order)"
  show ?case
  proof (cases "0 < remaining_quantity order \<and> side_book ?cs ob \<noteq> []")
    case False
    have "loop_done order ob"
      using False by (auto simp: loop_done_def split: list.splits)
    with match_loop_stop[of order ob ts tlog] False "1.prems"(1,2) show ?thesis by simp
  next
    case True
    then obtain bp lvl rest where bk: "side_book ?cs ob = (bp, lvl) # rest"
      by (cases "side_book ?cs ob") auto
    show ?thesis
    proof (cases "beyond_limit order bp")
      case bl: True
      have "loop_done order ob" using bk bl by (simp add: loop_done_def)
      with match_loop_break[OF _ bk bl, of ts tlog] True "1.prems"(1,2) show ?thesis by simp
    next
      case nbl: False
      have sy: "synced ?cs bp ob lvl"
      proof -
        have m: "map_of (side_book ?cs ob) bp = Some lvl" by (simp add: bk)
        from side_ok_map_of[OF book_ok_side_ok[OF "1.prems"(1)] m] m
        show ?thesis by (simp add: synced_def)
      qed
      from match_level_rule_ok[OF "1.prems"(1) sy, of "\<lambda>_ _ _ _ _. True" ts tlog]
      obtain a' b' l' t' g' where ml: "match_level bp order ob lvl ts tlog = Inr (a', b', l', t', g')"
        and bok': "book_ok b'" and sy': "synced ?cs bp b' l'" and sd': "side a' = side order"
        and stop': "\<not> (0 < remaining_quantity a' \<and> orders l' \<noteq> [])"
        by blast
      have Q2: "Q a' (remove_empty_level ?cs bp l' b') t' g'"
        using "1.prems"(3)[OF "1.prems"(2) "1.prems"(1) refl _ bk nbl ml bok' sy' stop'] True
        by simp
      have bok2: "book_ok (remove_empty_level ?cs bp l' b')"
        by (rule remove_empty_level_ok[OF bok'])
      note pr3 = "1.prems"(3)
      have "\<exists>a b t g. match_loop a' (remove_empty_level ?cs bp l' b') t' g' = Inr (a, b, t, g)
           \<and> Q a b t g \<and> book_ok b \<and> side a = side a' \<and> loop_done a b"
      proof (rule "1.IH"[OF True bk refl nbl ml refl refl refl refl bok2 Q2], goal_cases)
        case (1 a b t g bp lvl rest a'' b'' l'' t'' g'')
        have "Q a'' (remove_empty_level (opposite (side order)) bp l'' b'') t'' g''"
          by (rule pr3[of a b t g bp lvl rest a'' b'' l'' t'' g'']) (use 1 sd' in simp_all)
        then show ?case by (simp add: sd')
      qed
      then obtain a b t g where res: "match_loop a' (remove_empty_level ?cs bp l' b') t' g' = Inr (a, b, t, g)"
        and fin: "Q a b t g" "book_ok b" "side a = side a'" "loop_done a b"
        by blast
      have "match_loop order ob ts tlog = Inr (a, b, t, g)"
        using match_loop_step[OF _ bk nbl ml] True res by simp
      with fin sd' show ?thesis by simp
    qed
  qed
qed

lemma beyond_limit_iff:
  "beyond_limit order p \<longleftrightarrow>
     (\<exists>limit. price order = Some limit
        \<and> ((side order = BUY \<and> limit < p) \<or> (side order = SELL \<and> p < limit)))"
  by (cases "price order") (auto simp: beyond_limit_def)

lemma beyond_limit_cong:
  "price a = price a' \<Longrightarrow> side a = side a' \<Longrightarrow> beyond_limit a p = beyond_limit a' p"
  by (simp add: beyond_limit_iff)

text \<open>
  The two loops together: a property \<open>R\<close> of the order, the book, the local list of
  trades and the log that every single fill keeps, and the removal of a level at the end
  of the inner loop keeps, holds when \<open>_match_order\<close> ends. A fill happens in a
  well-formed book, with \<open>r\<close> at the head of the queue of the level object \<open>l\<close>, which is
  the level the book holds under \<open>bp\<close> if it holds that key.
\<close>

lemma match_loop_fills_rule:
  assumes bok: "book_ok ob" and R0: "R order ob ts tlog"
    and step: "\<And>a b t g bp l r rest.
        R a b t g \<Longrightarrow> book_ok b \<Longrightarrow> side a = side order \<Longrightarrow> price a = price order \<Longrightarrow>
        synced (opposite (side order)) bp b l \<Longrightarrow>
        orders l = r # rest \<Longrightarrow> 0 < remaining_quantity a \<Longrightarrow> \<not> beyond_limit a bp \<Longrightarrow>
        R (filled a (fill_qty a r)) (book_after bp a b l r rest)
          (t @ [step_trade bp a r (fill_qty a r)]) (g @ [step_trade bp a r (fill_qty a r)])"
    and rm: "\<And>a b t g bp l. R a b t g \<Longrightarrow> book_ok b \<Longrightarrow> side a = side order \<Longrightarrow>
        R a (remove_empty_level (opposite (side order)) bp l b) t g"
  shows "\<exists>a b t g. match_loop order ob ts tlog = Inr (a, b, t, g) \<and> R a b t g \<and> book_ok b
           \<and> side a = side order \<and> price a = price order \<and> loop_done a b"
proof -
  let ?cs = "opposite (side order)"
  let ?Q = "\<lambda>a b t g. R a b t g \<and> price a = price order"
  have "\<exists>a b t g. match_loop order ob ts tlog = Inr (a, b, t, g)
           \<and> ?Q a b t g \<and> book_ok b \<and> side a = side order \<and> loop_done a b"
  proof (rule match_loop_rule_ok[OF bok, where Q = ?Q], goal_cases)
    case 1
    show ?case using R0 by simp
  next
    case (2 a b t g bp lvl rest a' b' l' t' g')
    let ?P = "\<lambda>a2 b2 (l2::PriceLevel) t2 g2. R a2 b2 t2 g2 \<and> price a2 = price order"
    have sy: "synced (opposite (side a)) bp b lvl"
    proof -
      have m: "map_of (side_book ?cs b) bp = Some lvl" using 2(5) by simp
      from side_ok_map_of[OF book_ok_side_ok[OF 2(2)] m] m 2(3)
      show ?thesis by (simp add: synced_def)
    qed
    have "\<exists>a2 b2 l2 t2 g2. match_level bp a b lvl t g = Inr (a2, b2, l2, t2, g2)
           \<and> ?P a2 b2 l2 t2 g2 \<and> book_ok b2 \<and> synced (opposite (side a)) bp b2 l2
           \<and> side a2 = side a
           \<and> \<not> (0 < remaining_quantity a2 \<and> orders l2 \<noteq> [])"
    proof (rule match_level_rule_ok[OF 2(2) sy, where P = ?P], goal_cases)
      case 1
      show ?case using 2(1) by simp
    next
      case (2 a2 b2 l2 t2 g2 r2 rest2)
      have nb: "\<not> beyond_limit a2 bp"
        using beyond_limit_cong[of a2 a bp] 2(1,3) \<open>\<not> beyond_limit a bp\<close>
          \<open>R a b t g \<and> price a = price order\<close> by simp
      have "R (filled a2 (fill_qty a2 r2)) (book_after bp a2 b2 l2 r2 rest2)
              (t2 @ [step_trade bp a2 r2 (fill_qty a2 r2)])
              (g2 @ [step_trade bp a2 r2 (fill_qty a2 r2)])"
        by (rule step) (use 2 nb \<open>side a = side order\<close> in simp_all)
      then show ?case using 2(1) by (simp add: filled_fields)
    qed
    with 2(7) obtain l2 where r: "R a' b' t' g'" and p: "price a' = price order"
      and sd: "side a' = side a" by auto
    from rm[OF r 2(8), of bp l'] sd 2(3) p show ?case by simp
  qed
  then show ?thesis by blast
qed

text \<open>What matching leaves unchanged, and what it does to the order, the index and the log.\<close>

lemma match_order_ok:
  assumes "book_ok ob"
  shows "\<exists>a b t g. match_order order ob tlog = Inr (a, b, t, g) \<and> book_ok b \<and> loop_done a b
           \<and> side a = side order \<and> price a = price order \<and> order_id a = order_id order
           \<and> symbol a = symbol order \<and> order_type a = order_type order
           \<and> quantity a = quantity order \<and> timestamp a = timestamp order
           \<and> (0 < remaining_quantity order \<longrightarrow> 0 \<le> remaining_quantity a)
           \<and> ((status order = PENDING \<or> status order = PARTIAL) \<and> 0 < remaining_quantity a
                \<longrightarrow> status a = PENDING \<or> status a = PARTIAL)
           \<and> g = tlog @ t
           \<and> orders_ob b \<subseteq>\<^sub>m orders_ob ob
           \<and> (\<forall>s. level_keys s b \<subseteq> level_keys s ob)
           \<and> symbol_ob b = symbol_ob ob
           \<and> side_book (side order) b = side_book (side order) ob
           \<and> list_all (\<lambda>tr. taker_order_id tr = order_id order \<and> aggressor_side tr = side order
                           \<and> symbol_t tr = symbol order \<and> 0 < quantity_t tr) t"
proof -
  let ?R = "\<lambda>a b (t::Trade list) g. order_id a = order_id order
           \<and> symbol a = symbol order \<and> order_type a = order_type order
           \<and> quantity a = quantity order \<and> timestamp a = timestamp order
           \<and> (0 < remaining_quantity order \<longrightarrow> 0 \<le> remaining_quantity a)
           \<and> ((status order = PENDING \<or> status order = PARTIAL) \<and> 0 < remaining_quantity a
                \<longrightarrow> status a = PENDING \<or> status a = PARTIAL)
           \<and> g = tlog @ t
           \<and> orders_ob b \<subseteq>\<^sub>m orders_ob ob
           \<and> (\<forall>s. level_keys s b \<subseteq> level_keys s ob)
           \<and> symbol_ob b = symbol_ob ob
           \<and> side_book (side order) b = side_book (side order) ob
           \<and> list_all (\<lambda>tr. taker_order_id tr = order_id order \<and> aggressor_side tr = side order
                           \<and> symbol_t tr = symbol order \<and> 0 < quantity_t tr) t"
  have "\<exists>a b t g. match_loop order ob [] tlog = Inr (a, b, t, g) \<and> ?R a b t g \<and> book_ok b
           \<and> side a = side order \<and> price a = price order \<and> loop_done a b"
  proof (rule match_loop_fills_rule[OF assms, where R = ?R], goal_cases)
    case 1
    show ?case by simp
  next
    case (2 a b t g bp l r rest)
    from 2(5,6) have rpos: "0 < remaining_quantity r"
      by (simp add: synced_def level_ok_def order_live_def)
    have fq: "0 < fill_qty a r" "fill_qty a r \<le> remaining_quantity a"
      using rpos 2(7) by (simp_all add: fill_qty_def)
    have nn: "0 \<le> dec_sub (remaining_quantity a) (fill_qty a r)"
      by (rule dec_sub_nonneg[OF fq(2)])
    have st: "0 < dec_sub (remaining_quantity a) (fill_qty a r) \<longrightarrow>
        status (filled a (fill_qty a r)) = PARTIAL \<or> status (filled a (fill_qty a r)) = status a"
      by (simp add: filled_status)
    have ix: "orders_ob (book_after bp a b l r rest) \<subseteq>\<^sub>m orders_ob ob"
    proof -
      have "orders_ob (book_after bp a b l r rest) \<subseteq>\<^sub>m orders_ob b"
        by (auto simp: orders_ob_book_after map_le_def)
      with 2(1) show ?thesis by (blast intro: map_le_trans)
    qed
    have ks: "level_keys s (book_after bp a b l r rest) \<subseteq> level_keys s ob" for s
      using level_keys_book_after[of s bp a b l r rest] 2(1) by blast
    have own: "side_book (side order) (book_after bp a b l r rest) = side_book (side order) ob"
      using 2(1,3) opposite_neq[of "side order"] by (auto simp: side_book_book_after)
    show ?case
      using 2(1,3,7) fq nn st ix ks own
      by (auto simp: filled_fields step_trade_def symbol_ob_book_after)
  next
    case (3 a b t g bp l)
    have ks: "level_keys s (remove_empty_level (opposite (side order)) bp l b) \<subseteq> level_keys s ob" for s
      using level_keys_remove_empty_level[of s "opposite (side order)" bp l b] 3(1) by blast
    have own: "side_book (side order) (remove_empty_level (opposite (side order)) bp l b)
        = side_book (side order) ob"
      using 3(1) opposite_neq[of "side order"]
      by (simp add: side_book_remove_empty_level_other[of "side order" "opposite (side order)"])
    show ?case
      using 3(1) ks own
      by (simp add: orders_ob_remove_empty_level symbol_ob_remove_empty_level)
  qed
  then show ?thesis by (simp add: match_order_def) blast
qed

section \<open>Adding and removing resting orders\<close>

lemma sd_modify_insort_new:
  "k \<notin> fst ` set d \<Longrightarrow>
   sd_modify k f (insort_key (\<lambda>kv. kf (fst kv)) (k, v) d) = insort_key (\<lambda>kv. kf (fst kv)) (k, f v) d"
proof (induction d)
  case Nil
  show ?case by (simp add: sd_modify_def)
next
  case (Cons x d)
  obtain k' v' where x: "x = (k', v')" by (cases x)
  with Cons.prems have ne: "k' \<noteq> k" and nin: "k \<notin> fst ` set d" by auto
  have tail: "sd_modify k f d = d"
    using nin by (intro sd_modify_absent) (simp add: map_of_eq_None_iff)
  have hd: "sd_modify k f (x # d) = x # d"
    using tail ne x by (simp add: sd_modify_def)
  show ?case
  proof (cases "kf k \<le> kf k'")
    case True
    then show ?thesis using hd x by (simp add: sd_modify_def)
  next
    case False
    then show ?thesis using Cons.IH[OF nin] x ne by (simp add: sd_modify_def)
  qed
qed

lemma map_fst_insort_key:
  "map fst (insort_key (\<lambda>kv. kf (fst kv)) (k, v) d) = insort_key kf k (map fst d)"
  by (induction d) auto


lemma side_ok_insort:
  assumes "side_ok sd d" and "k \<notin> fst ` set d" and "level_ok sd k level"
  shows "side_ok sd (insort_key (\<lambda>kv. side_key sd (fst kv)) (k, level) d)"
proof -
  let ?d = "insort_key (\<lambda>kv. side_key sd (fst kv)) (k, level) d"
  have 1: "sorted (map (\<lambda>kv. side_key sd (fst kv)) ?d)"
    using assms(1) by (simp add: side_ok_def sorted_insort_key)
  have 2: "distinct (map fst ?d)"
    using assms(1,2) by (simp add: map_fst_insort_key distinct_insort side_ok_def)
  have 3: "list_all (\<lambda>kv. level_ok sd (fst kv) (snd kv)) ?d"
    using assms(1,3) by (auto simp: side_ok_def list_all_iff set_insort_key)
  from 1 2 3 show ?thesis by (simp add: side_ok_def)
qed

lemma level_ok_add_order:
  assumes "order_live sd p order"
  shows "level_ok sd p (PriceLevel_add_order (PriceLevel_init p) order)"
    and "level_ok sd p level \<Longrightarrow> level_ok sd p (PriceLevel_add_order level order)"
  using assms by (simp_all add: level_ok_def PriceLevel_add_order_def PriceLevel_init_def)

text \<open>The side of the book an order is added to, after \<open>add_order\<close>.\<close>

definition side_after_add :: "Order \<Rightarrow> rat \<Rightarrow> PriceLevel SortedDict \<Rightarrow> PriceLevel SortedDict" where
  "side_after_add order p d =
     (case map_of d p of
        None \<Rightarrow> insort_key (\<lambda>kv. side_key (side order) (fst kv))
                  (p, PriceLevel_add_order (PriceLevel_init p) order) d
      | Some level \<Rightarrow> sd_modify p (\<lambda>_. PriceLevel_add_order level order) d)"

lemma sd_modify_const:
  "distinct (map fst d) \<Longrightarrow> map_of d k = Some level \<Longrightarrow>
   sd_modify k f d = sd_modify k (\<lambda>_. f level) d"
proof (induction d)
  case Nil
  then show ?case by simp
next
  case (Cons x d)
  obtain k' v' where x: "x = (k', v')" by (cases x)
  show ?case
  proof (cases "k' = k")
    case True
    with Cons.prems x have "v' = level" and "k \<notin> fst ` set d" by auto
    then have "sd_modify k f d = d" and "sd_modify k (\<lambda>_. f level) d = d"
      by (simp_all add: sd_modify_absent map_of_eq_None_iff)
    with True x \<open>v' = level\<close> show ?thesis by (simp add: sd_modify_def)
  next
    case False
    with Cons x show ?thesis by (simp add: sd_modify_def)
  qed
qed

lemma add_order_result:
  assumes "0 < remaining_quantity order" and "price order = Some p"
    and "distinct (map fst (side_book (side order) self))"
  shows "add_order self order =
           Inr ((set_side_book (side order)
                   (side_after_add order p (side_book (side order) self)) self)
                \<lparr>orders_ob := (orders_ob self)(order_id order \<mapsto> order)\<rparr>)"
proof (cases "map_of (side_book (side order) self) p")
  case None
  then have nin: "p \<notin> fst ` set (side_book (side order) self)"
    by (simp add: map_of_eq_None_iff)
  then have nc: "\<not> sd_contains (side_book (side order) self) p"
    by (simp add: sd_contains_def)
  show ?thesis
    unfolding add_order_def
    using assms(1,2) nc None
    by (simp add: Let_def sd_setitem_def side_after_add_def sd_modify_insort_new[OF nin])
next
  case (Some level)
  then have c: "sd_contains (side_book (side order) self) p"
    by (simp add: sd_contains_map_of)
  show ?thesis
    unfolding add_order_def
    using assms(1,2) c Some sd_modify_const[OF assms(3) Some, of "\<lambda>l. PriceLevel_add_order l order"]
    by (simp add: Let_def side_after_add_def)
qed


lemma keys_side_after_add: "fst ` set (side_after_add order p d) = insert p (fst ` set d)"
proof (cases "map_of d p")
  case None
  then show ?thesis by (simp add: side_after_add_def set_insort_key)
next
  case (Some level)
  then have "p \<in> fst ` set d" by (metis map_of_eq_None_iff option.distinct(1))
  with Some show ?thesis by (auto simp: side_after_add_def keys_sd_modify)
qed

lemma side_ok_side_after_add:
  assumes "side_ok (side order) d" and "order_live (side order) p order"
  shows "side_ok (side order) (side_after_add order p d)"
proof (cases "map_of d p")
  case None
  then have "p \<notin> fst ` set d" by (simp add: map_of_eq_None_iff)
  from side_ok_insort[OF assms(1) this level_ok_add_order(1)[OF assms(2)]] None
  show ?thesis by (simp add: side_after_add_def)
next
  case (Some level)
  from level_ok_add_order(2)[OF assms(2) side_ok_map_of[OF assms(1) Some]]
    side_ok_sd_modify[OF assms(1)] Some
  show ?thesis by (simp add: side_after_add_def)
qed

lemma add_order_ok:
  assumes bok: "book_ok self" and live: "order_live (side order) p order"
    and lim: "\<forall>k\<in>level_keys (opposite (side order)) self. beyond_limit order k"
  shows "\<exists>self1. add_order self order = Inr self1 \<and> book_ok self1
           \<and> symbol_ob self1 = symbol_ob self
           \<and> side_book (opposite (side order)) self1 = side_book (opposite (side order)) self
           \<and> side_book (side order) self1 = side_after_add order p (side_book (side order) self)
           \<and> orders_ob self1 = (orders_ob self)(order_id order \<mapsto> order)"
proof -
  let ?sd = "side order"
  let ?d = "side_book ?sd self"
  let ?ob1 = "(set_side_book ?sd (side_after_add order p ?d) self)
                \<lparr>orders_ob := (orders_ob self)(order_id order \<mapsto> order)\<rparr>"
  from live have pos: "0 < remaining_quantity order" and pr: "price order = Some p"
    by (simp_all add: order_live_def)
  have sok: "side_ok ?sd ?d" by (rule book_ok_side_ok[OF bok])
  then have dist: "distinct (map fst ?d)" by (simp add: side_ok_def)
  have res: "add_order self order = Inr ?ob1"
    by (rule add_order_result[OF pos pr dist])
  have sb: "side_book s ?ob1 = (if s = ?sd then side_after_add order p ?d else side_book s self)" for s
    by (simp add: side_book_orders_ob_update side_book_set_side_book)
  have sides: "side_ok s (side_book s ?ob1)" for s
    using side_ok_side_after_add[OF sok live] book_ok_side_ok[OF bok, of s] by (simp add: sb)
  have keys: "level_keys s ?ob1 = (if s = ?sd then insert p (level_keys s self) else level_keys s self)" for s
    unfolding level_keys_def sb using keys_side_after_add[of order p ?d] by simp
  have unc: "uncrossed ?ob1"
    unfolding uncrossed_iff
  proof (intro ballI)
    fix b a
    assume b: "b \<in> level_keys BUY ?ob1" and a: "a \<in> level_keys SELL ?ob1"
    from bok have old: "\<forall>b\<in>level_keys BUY self. \<forall>a\<in>level_keys SELL self. b < a"
      by (simp add: book_ok_def uncrossed_iff)
    show "b < a"
    proof (cases ?sd)
      case BUY
      with a keys[of SELL] have a': "a \<in> level_keys SELL self" by simp
      show ?thesis
      proof (cases "b = p")
        case True
        from lim a' BUY have "beyond_limit order a" by (simp add: opposite_def)
        with BUY pr True show ?thesis by (simp add: beyond_limit_iff)
      next
        case False
        with b keys[of BUY] BUY have "b \<in> level_keys BUY self" by simp
        with old a' show ?thesis by blast
      qed
    next
      case SELL
      with b keys[of BUY] have b': "b \<in> level_keys BUY self" by simp
      show ?thesis
      proof (cases "a = p")
        case True
        from lim b' SELL have "beyond_limit order b" by (simp add: opposite_def)
        with SELL pr True show ?thesis by (simp add: beyond_limit_iff)
      next
        case False
        with a keys[of SELL] SELL have "a \<in> level_keys SELL self" by simp
        with old b' show ?thesis by blast
      qed
    qed
  qed
  have idx: "index_ok ?ob1"
    using bok live by (auto simp: book_ok_def index_ok_def order_live_def)
  have "book_ok ?ob1"
    using sides[of BUY] sides[of SELL] unc idx by (simp add: book_ok_def side_book_def)
  moreover have "symbol_ob ?ob1 = symbol_ob self" by (simp add: symbol_ob_set_side_book)
  moreover have "side_book (opposite ?sd) ?ob1 = side_book (opposite ?sd) self"
    using opposite_neq[of ?sd] by (simp add: sb)
  moreover have "side_book ?sd ?ob1 = side_after_add order p ?d" by (simp add: sb)
  moreover have "orders_ob ?ob1 = (orders_ob self)(order_id order \<mapsto> order)" by simp
  ultimately show ?thesis using res by blast
qed

text \<open>What the scan of a queue for an identifier finds.\<close>

lemma remove_scan_None: "remove_scan oid xs = None \<longleftrightarrow> oid \<notin> order_id ` set xs"
  by (induction xs) (auto split: option.splits)

lemma remove_scan_Some:
  assumes "remove_scan oid xs = Some (ys, r)"
  shows "order_id r = oid \<and> r \<in> set xs \<and> set ys \<subseteq> set xs"
  using assms
  by (induction xs arbitrary: ys) (auto split: if_splits option.splits)

lemma PriceLevel_remove_order_ok:
  assumes "level_ok sd p level" and "PriceLevel_remove_order level oid = (level1, removed)"
  shows "level_ok sd p level1"
    and "removed = Some r \<Longrightarrow> order_id r = oid \<and> order_live sd p r"
proof -
  have "level_ok sd p level1 \<and> (\<forall>r. removed = Some r \<longrightarrow> order_id r = oid \<and> order_live sd p r)"
  proof (cases "remove_scan oid (orders level)")
    case None
    with assms show ?thesis by (simp add: PriceLevel_remove_order_def)
  next
    case (Some yr)
    obtain ys r where yr: "yr = (ys, r)" by (cases yr)
    from remove_scan_Some[OF Some[unfolded yr]] have
      1: "order_id r = oid" and 2: "r \<in> set (orders level)" and 3: "set ys \<subseteq> set (orders level)"
      by simp_all
    from assms(2) Some yr have l1: "orders level1 = ys" and rm: "removed = Some r"
      by (auto simp: PriceLevel_remove_order_def)
    from assms(1) 3 have "list_all (order_live sd p) ys"
      unfolding level_ok_def list_all_iff by blast
    moreover from assms(1) 2 have "order_live sd p r"
      unfolding level_ok_def list_all_iff by blast
    ultimately show ?thesis using l1 rm 1 by (simp add: level_ok_def)
  qed
  then show "level_ok sd p level1"
    and "removed = Some r \<Longrightarrow> order_id r = oid \<and> order_live sd p r"
    by blast+
qed

lemma remove_order_miss: "orders_ob self oid = None \<Longrightarrow> remove_order self oid = (self, None)"
  by (simp add: remove_order_def)

text \<open>
  \<open>remove_order\<close> on a well-formed book leaves a well-formed book, whether it finds the
  order or not; an order it returns has left the index.
\<close>

lemma remove_order_ok:
  assumes bok: "book_ok self" and res: "remove_order self oid = (self1, removed)"
  shows "book_ok self1" and "symbol_ob self1 = symbol_ob self"
    and "\<And>s. level_keys s self1 \<subseteq> level_keys s self"
    and "orders_ob self1 = (if removed = None then orders_ob self else (orders_ob self)(oid := None))"
    and "removed = Some r \<Longrightarrow>
           order_id r = oid \<and> (\<exists>sd p. order_live sd p r)"
proof -
  have "book_ok self1 \<and> symbol_ob self1 = symbol_ob self
      \<and> (\<forall>s. level_keys s self1 \<subseteq> level_keys s self)
      \<and> orders_ob self1 = (if removed = None then orders_ob self else (orders_ob self)(oid := None))
      \<and> (\<forall>r. removed = Some r \<longrightarrow> order_id r = oid \<and> (\<exists>sd p. order_live sd p r))"
  proof (cases "orders_ob self oid")
    case None
    with res bok show ?thesis by (simp add: remove_order_def)
  next
    case (Some x)
    show ?thesis
    proof (cases "price x")
      case None
      with Some res bok show ?thesis by (simp add: remove_order_def)
    next
      case p: (Some p)
      let ?sd = "side x"
      let ?d = "side_book ?sd self"
      show ?thesis
      proof (cases "map_of ?d p")
        case None
        with Some p res bok show ?thesis by (simp add: remove_order_def)
      next
        case lv: (Some level)
        obtain level1 rm where plr: "PriceLevel_remove_order level oid = (level1, rm)"
          by (cases "PriceLevel_remove_order level oid")
        have sok: "side_ok ?sd ?d" by (rule book_ok_side_ok[OF bok])
        have lok: "level_ok ?sd p level" by (rule side_ok_map_of[OF sok lv])
        note l1 = PriceLevel_remove_order_ok[OF lok plr]
        let ?d2 = "if is_empty level1 then sd_delitem p ?d else sd_modify p (\<lambda>_. level1) ?d"
        let ?ob1 = "set_side_book ?sd ?d2 self"
        have r1: "remove_order self oid =
            (case rm of Some r \<Rightarrow> (?ob1\<lparr>orders_ob := (orders_ob ?ob1)(oid := None)\<rparr>, Some r)
                      | None \<Rightarrow> (?ob1, None))"
          unfolding remove_order_def
          using Some p lv plr by (cases rm) (simp_all add: Let_def sd_delitem_sd_modify)
        have sb: "side_book s ?ob1 = (if s = ?sd then ?d2 else side_book s self)" for s
          by (simp add: side_book_set_side_book)
        have sides: "side_ok s (side_book s ?ob1)" for s
          unfolding sb
          using book_ok_side_ok[OF bok, of s] side_ok_sd_delitem[OF sok, of p]
            side_ok_sd_modify[OF sok l1(1)] by simp
        have keys: "level_keys s ?ob1 \<subseteq> level_keys s self" for s
          by (auto simp: level_keys_def sb keys_sd_delitem keys_sd_modify)
        have unc: "uncrossed ?ob1"
          by (rule uncrossed_mono[of self]) (use bok keys in \<open>simp_all add: book_ok_def\<close>)
        have iok: "index_ok ?ob1" "index_ok (?ob1\<lparr>orders_ob := (orders_ob ?ob1)(oid := None)\<rparr>)"
          using bok by (auto simp: book_ok_def index_ok_def orders_ob_set_side_book)
        have b1: "book_ok ?ob1"
          using sides[of BUY] sides[of SELL] unc iok(1) by (simp add: book_ok_def side_book_def)
        have b2: "book_ok (?ob1\<lparr>orders_ob := (orders_ob ?ob1)(oid := None)\<rparr>)"
          using sides[of BUY] sides[of SELL] unc iok(2)
          by (simp add: book_ok_def side_book_def uncrossed_def)
        show ?thesis
        proof (cases rm)
          case None
          with r1 res have "self1 = ?ob1" "removed = None" by simp_all
          with b1 keys show ?thesis
            by (simp add: symbol_ob_set_side_book orders_ob_set_side_book)
        next
          case (Some r)
          with r1 res have e: "self1 = ?ob1\<lparr>orders_ob := (orders_ob ?ob1)(oid := None)\<rparr>"
            "removed = Some r" by simp_all
          have k2: "level_keys s self1 \<subseteq> level_keys s self" for s
            using keys[of s] by (simp add: e level_keys_orders_ob_update)
          from l1(2)[OF Some] e b2 k2 show ?thesis
            by (auto simp: symbol_ob_set_side_book orders_ob_set_side_book)
        qed
      qed
    qed
  qed
  then show "book_ok self1" and "symbol_ob self1 = symbol_ob self"
    and "\<And>s. level_keys s self1 \<subseteq> level_keys s self"
    and "orders_ob self1 = (if removed = None then orders_ob self else (orders_ob self)(oid := None))"
    and "removed = Some r \<Longrightarrow> order_id r = oid \<and> (\<exists>sd p. order_live sd p r)"
    by blast+
qed

section \<open>Reachable engine states\<close>

text \<open>
  An order as the engine's callers build it: the result of the constructor with the
  status and the filled quantity left at their defaults. A sequence of operations is
  valid when every order it submits is such an order.
\<close>

definition fresh :: "Order \<Rightarrow> bool" where
  "fresh order =
     (new_order (order_id order) (symbol order) (order_type order) (side order) (quantity order)
        (price order) (timestamp order) = Inr order)"

fun valid_op :: "operation \<Rightarrow> bool" where
  "valid_op (Submit order) = fresh order"
| "valid_op (Cancel smb oid) = True"

lemma freshD:
  assumes "fresh order"
  shows "0 < quantity order" and "remaining_quantity order = dec_sub (quantity order) 0"
    and "filled_quantity order = 0" and "status order = PENDING"
    and "order_type order \<noteq> MARKET \<Longrightarrow> \<exists>p. price order = Some p \<and> 0 < p"
    and "order_type order = MARKET \<Longrightarrow> price order = None"
    and "0 < remaining_quantity order"
proof -
  let ?c = "Order_init (order_id order) (symbol order) (order_type order) (side order)
              (quantity order) (price order) (timestamp order) PENDING 0"
  from assms have eq: "?c = Inr order" by (simp add: fresh_def new_order_def)
  then have q: "\<not> quantity order \<le> 0"
    and a: "\<not> (order_type order \<noteq> MARKET \<and> price order = None)"
    and b: "\<not> (order_type order = MARKET \<and> price order \<noteq> None)"
    and c: "\<not> (case price order of None \<Rightarrow> False | Some p \<Rightarrow> p \<le> 0)"
    by (auto simp: Order_init_def Let_def split: if_splits)
  from q show q0: "0 < quantity order" by simp
  from eq have o: "order = \<lparr>order_id = order_id order, symbol = symbol order,
      order_type = order_type order, side = side order, quantity = quantity order,
      price = price order, timestamp = timestamp order, status = PENDING,
      filled_quantity = 0, remaining_quantity = dec_sub (quantity order) 0\<rparr>"
    by (auto simp: Order_init_def Let_def split: if_splits)
  show r: "remaining_quantity order = dec_sub (quantity order) 0" by (subst o) simp
  show "filled_quantity order = 0" by (subst o) simp
  show "status order = PENDING" by (subst o) simp
  show "\<exists>p. price order = Some p \<and> 0 < p" if "order_type order \<noteq> MARKET"
    using a c that by (cases "price order") auto
  show "price order = None" if "order_type order = MARKET"
    using b that by simp
  show "0 < remaining_quantity order" unfolding r by (rule dec_sub_pos[OF q0])
qed

text \<open>
  When the outer loop has ended with quantity left, every price on the opposite side is
  beyond the order's limit.
\<close>

lemma loop_done_beyond:
  assumes sok: "side_ok (opposite (side a)) (side_book (opposite (side a)) b)"
    and dn: "loop_done a b" and pos: "0 < remaining_quantity a"
  shows "\<forall>k\<in>level_keys (opposite (side a)) b. beyond_limit a k"
proof (cases "side_book (opposite (side a)) b")
  case Nil
  then show ?thesis by (simp add: level_keys_def)
next
  case (Cons x rest)
  obtain bp l where x: "x = (bp, l)" by (cases x)
  with Cons dn pos have bl: "beyond_limit a bp" by (simp add: loop_done_def)
  then obtain lim where lim: "price a = Some lim"
    and c: "(side a = BUY \<and> lim < bp) \<or> (side a = SELL \<and> bp < lim)"
    by (auto simp: beyond_limit_iff)
  from sok Cons x have srt: "sorted (map (\<lambda>kv. side_key (opposite (side a)) (fst kv)) ((bp, l) # rest))"
    by (simp add: side_ok_def)
  show ?thesis
  proof
    fix k
    assume "k \<in> level_keys (opposite (side a)) b"
    with Cons x have k: "k = bp \<or> k \<in> fst ` set rest" by (auto simp: level_keys_def)
    from srt have le: "\<forall>kv\<in>set rest. side_key (opposite (side a)) bp \<le> side_key (opposite (side a)) (fst kv)"
      by simp
    show "beyond_limit a k"
    proof (cases "side a")
      case BUY
      with le have "\<forall>kv\<in>set rest. bp \<le> fst kv" by (simp add: side_key_def opposite_def)
      with k c BUY lim show ?thesis by (auto simp: beyond_limit_iff)
    next
      case SELL
      with le have "\<forall>kv\<in>set rest. fst kv \<le> bp" by (simp add: side_key_def opposite_def)
      with k c SELL lim show ?thesis by (auto simp: beyond_limit_iff)
    qed
  qed
qed
text \<open>
  Processing an order built by the constructor in a well-formed book raises nothing and
  leaves a well-formed book.
\<close>

lemma process_order_ok:
  assumes bok: "book_ok ob" and fr: "fresh order"
  shows "\<exists>a b t g. process_order order ob tlog = Inr (a, b, t, g) \<and> book_ok b
           \<and> symbol_ob b = symbol_ob ob"
proof -
  from match_order_ok[OF bok, of order tlog] obtain a b t g where
    m: "match_order order ob tlog = Inr (a, b, t, g)" and b: "book_ok b" and ld: "loop_done a b"
    and sd: "side a = side order" and pr: "price a = price order"
    and ty: "order_type a = order_type order"
    and st: "(status order = PENDING \<or> status order = PARTIAL) \<and> 0 < remaining_quantity a
                \<longrightarrow> status a = PENDING \<or> status a = PARTIAL"
    and sy: "symbol_ob b = symbol_ob ob"
    by blast
  show ?thesis
  proof (cases "order_type order")
    case MARKET
    with m b sy show ?thesis by (simp add: process_order_def process_market_order_def)
  next
    case IOC
    with m b sy show ?thesis by (simp add: process_order_def process_ioc_order_def)
  next
    case FOK
    with m b sy bok show ?thesis by (simp add: process_order_def process_fok_order_def)
  next
    case LIMIT
    show ?thesis
    proof (cases "0 < remaining_quantity a")
      case False
      with LIMIT m b sy show ?thesis by (simp add: process_order_def process_limit_order_def)
    next
      case True
      from freshD(5)[OF fr] LIMIT pr obtain p where p: "price a = Some p" by auto
      have live: "order_live (side a) p a"
        using True p st freshD(4)[OF fr] ty LIMIT by (simp add: order_live_def)
      have lim: "\<forall>k\<in>level_keys (opposite (side a)) b. beyond_limit a k"
        by (rule loop_done_beyond[OF book_ok_side_ok[OF b] ld True])
      from add_order_ok[OF b live lim] obtain b2 where
        "add_order b a = Inr b2" "book_ok b2" "symbol_ob b2 = symbol_ob b"
        by blast
      with LIMIT m True sy show ?thesis by (simp add: process_order_def process_limit_order_def)
    qed
  qed
qed
definition engine_ok :: "MatchingEngine \<Rightarrow> bool" where
  "engine_ok self = (\<forall>smb ob. order_books self smb = Some ob \<longrightarrow> book_ok ob)"

lemma book_ok_init: "book_ok (OrderBook_init smb)"
  by (simp add: book_ok_def OrderBook_init_def side_ok_def uncrossed_def index_ok_def)

lemma engine_ok_init: "engine_ok MatchingEngine_init"
  by (simp add: engine_ok_def MatchingEngine_init_def)

text \<open>The book \<open>submit_order\<close> works on: the one registered for the symbol, or a new one.\<close>

definition book_for :: "MatchingEngine \<Rightarrow> string \<Rightarrow> OrderBook" where
  "book_for self smb = (case order_books self smb of None \<Rightarrow> OrderBook_init smb | Some ob \<Rightarrow> ob)"

lemma book_for_ok: "engine_ok self \<Longrightarrow> book_ok (book_for self smb)"
  by (auto simp: book_for_def engine_ok_def book_ok_init split: option.splits)

lemma submit_order_Inr:
  assumes "process_order order (book_for self (symbol order)) (trades self) = Inr (a, b, t, g)"
  shows "submit_order self order =
           (self\<lparr>order_books := (order_books self)(symbol order \<mapsto> b), trades := g\<rparr>, a,
            Executed (order_id a) (status a) (filled_quantity a) (remaining_quantity a) t)"
  using assms
  by (cases "order_books self (symbol order)")
     (simp_all add: submit_order_def get_or_create_order_book_def book_for_def store_book_def)

lemma submit_order_fresh:
  assumes "engine_ok self" and "fresh order"
  shows "\<exists>a b t g. process_order order (book_for self (symbol order)) (trades self) = Inr (a, b, t, g)
           \<and> book_ok b
           \<and> submit_order self order =
               (self\<lparr>order_books := (order_books self)(symbol order \<mapsto> b), trades := g\<rparr>, a,
                Executed (order_id a) (status a) (filled_quantity a) (remaining_quantity a) t)"
proof -
  from process_order_ok[OF book_for_ok[OF assms(1)] assms(2), of "symbol order" "trades self"]
  obtain a b t g where
    p: "process_order order (book_for self (symbol order)) (trades self) = Inr (a, b, t, g)"
    and b: "book_ok b" by blast
  from submit_order_Inr[OF p] p b show ?thesis by blast
qed

lemma submit_order_engine_ok:
  assumes "engine_ok self" and "fresh order"
  shows "engine_ok (fst (submit_order self order))"
proof -
  from submit_order_fresh[OF assms] obtain a b t g where b: "book_ok b"
    and s: "submit_order self order =
               (self\<lparr>order_books := (order_books self)(symbol order \<mapsto> b), trades := g\<rparr>, a,
                Executed (order_id a) (status a) (filled_quantity a) (remaining_quantity a) t)"
    by blast
  with assms(1) show ?thesis by (simp add: engine_ok_def)
qed

lemma cancel_order_engine_ok:
  assumes "engine_ok self"
  shows "engine_ok (fst (cancel_order self smb oid))"
proof (cases "order_books self smb")
  case None
  with assms show ?thesis by (simp add: cancel_order_def)
next
  case (Some ob)
  with assms have bok: "book_ok ob" by (simp add: engine_ok_def)
  obtain ob1 rm where r: "remove_order ob oid = (ob1, rm)" by (cases "remove_order ob oid")
  from remove_order_ok(1)[OF bok r] have "book_ok ob1" .
  with Some assms r show ?thesis
    by (cases rm) (simp_all add: cancel_order_def engine_ok_def)
qed

lemma run_engine_ok:
  assumes "engine_ok self" and "list_all valid_op ops"
  shows "engine_ok (run self ops)"
  using assms unfolding run_def
proof (induction ops arbitrary: self)
  case Nil
  then show ?case by simp
next
  case (Cons op ops)
  have "engine_ok (apply_op self op)"
  proof (cases op)
    case (Submit order)
    with Cons.prems show ?thesis by (simp add: submit_order_engine_ok)
  next
    case (Cancel smb oid)
    with Cons.prems show ?thesis by (simp add: cancel_order_engine_ok)
  qed
  with Cons show ?case by simp
qed

lemma reachable_book_ok:
  "list_all valid_op ops \<Longrightarrow> order_books (run MatchingEngine_init ops) smb = Some ob \<Longrightarrow> book_ok ob"
  using run_engine_ok[OF engine_ok_init, of ops] by (simp add: engine_ok_def)

text \<open>Concrete orders and operation sequences used to instantiate the theorems.\<close>

definition sell_a :: Order where
  "sell_a = \<lparr>order_id = ''a'', symbol = ''BTC-USDT'', order_type = LIMIT, side = SELL,
             quantity = 1, price = Some 50000, timestamp = 0, status = PENDING,
             filled_quantity = 0, remaining_quantity = 1\<rparr>"



lemmas eval_defs = run_def submit_order_def get_or_create_order_book_def MatchingEngine_init_def
  OrderBook_init_def process_order_def process_limit_order_def process_market_order_def
  process_ioc_order_def process_fok_order_def can_fill_completely_def match_order_def
  add_order_def side_book_def set_side_book_def sd_contains_def sd_setitem_def sd_modify_def
  side_key_def PriceLevel_init_def PriceLevel_add_order_def opposite_def Let_def
  match_loop.simps match_level.simps match_step_def fill_def beyond_limit_def store_level_def
  update_order_quantity_def update_quantity_def is_empty_def sd_delitem_def remove_empty_level_def
  cancel_order_def remove_order_def PriceLevel_remove_order_def store_book_def dec_defs

lemmas fresh_defs = fresh_def new_order_def Order_init_def dec_defs





lemma process_order_no_rest:
  assumes "order_type order = IOC \<or> order_type order = MARKET"
    and "match_order order ob tlog = Inr (a, b, t, g)"
  shows "process_order order ob tlog =
           Inr (if 0 < remaining_quantity a then a\<lparr>status := CANCELLED\<rparr> else a, b, t, g)"
  using assms
  by (auto simp: process_order_def process_ioc_order_def process_market_order_def)

lemma book_ok_only_limit:
  assumes "book_ok ob"
  shows "(p, level) \<in> set (bids ob) \<union> set (asks ob) \<Longrightarrow> x \<in> set (orders level) \<Longrightarrow>
           order_type x = LIMIT"
    and "orders_ob ob oid = Some y \<Longrightarrow> order_type y = LIMIT"
proof -
  show "order_type x = LIMIT"
    if "(p, level) \<in> set (bids ob) \<union> set (asks ob)" and "x \<in> set (orders level)"
  proof -
    from that(1) assms obtain sd where "level_ok sd p level"
      by (auto simp: book_ok_def side_ok_def list_all_iff)
    with that(2) show ?thesis by (auto simp: level_ok_def list_all_iff order_live_def)
  qed
  show "order_type y = LIMIT" if "orders_ob ob oid = Some y"
    using that assms by (auto simp: book_ok_def index_ok_def)
qed

text \<open>
  C6. An IOC or MARKET order submitted in a reachable state never rests: after the
  submission every order in every price level and every order registered in an index is
  a LIMIT order; in the book of the order's symbol its own side is as before, the index
  has no new entry and the opposite side no new price; and quantity left unfilled leaves
  the order with status \<open>CANCELLED\<close>, which the report returns.
\<close>

theorem ioc_market_never_rest:
  assumes "list_all valid_op ops" and "fresh order"
    and "order_type order = IOC \<or> order_type order = MARKET"
    and "submit_order (run MatchingEngine_init ops) order = (self1, order1, report)"
  shows "(\<forall>smb ob p level x. order_books self1 smb = Some ob \<longrightarrow>
            (p, level) \<in> set (bids ob) \<union> set (asks ob) \<longrightarrow> x \<in> set (orders level) \<longrightarrow>
            order_type x = LIMIT)
     \<and> (\<forall>smb ob oid x. order_books self1 smb = Some ob \<longrightarrow> orders_ob ob oid = Some x \<longrightarrow>
            order_type x = LIMIT)
     \<and> (\<exists>ob1 ts. order_books self1 (symbol order) = Some ob1
           \<and> side_book (side order) ob1 =
               side_book (side order) (book_for (run MatchingEngine_init ops) (symbol order))
           \<and> orders_ob ob1 \<subseteq>\<^sub>m orders_ob (book_for (run MatchingEngine_init ops) (symbol order))
           \<and> level_keys (opposite (side order)) ob1
               \<subseteq> level_keys (opposite (side order))
                    (book_for (run MatchingEngine_init ops) (symbol order))
           \<and> report = Executed (order_id order) (status order1) (filled_quantity order1)
                        (remaining_quantity order1) ts)
     \<and> order_type order1 = order_type order
     \<and> (0 < remaining_quantity order1 \<longrightarrow> status order1 = CANCELLED)"
proof -
  let ?e = "run MatchingEngine_init ops"
  let ?ob = "book_for ?e (symbol order)"
  have eok: "engine_ok ?e" by (rule run_engine_ok[OF engine_ok_init assms(1)])
  have bok: "book_ok ?ob" by (rule book_for_ok[OF eok])
  have e1: "engine_ok (fst (submit_order ?e order))"
    by (rule submit_order_engine_ok[OF eok assms(2)])
  with assms(4) have e1ok: "engine_ok self1" by simp
  from match_order_ok[OF bok, of order "trades ?e"] obtain a b t g where
    m: "match_order order ?ob (trades ?e) = Inr (a, b, t, g)"
    and ty: "order_type a = order_type order" and oid: "order_id a = order_id order"
    and own: "side_book (side order) b = side_book (side order) ?ob"
    and ix: "orders_ob b \<subseteq>\<^sub>m orders_ob ?ob"
    and ks: "level_keys (opposite (side order)) b \<subseteq> level_keys (opposite (side order)) ?ob"
    by blast
  let ?a1 = "if 0 < remaining_quantity a then a\<lparr>status := CANCELLED\<rparr> else a"
  have pp: "process_order order ?ob (trades ?e) = Inr (?a1, b, t, g)"
    by (rule process_order_no_rest[OF assms(3) m])
  from submit_order_Inr[OF pp] assms(4)
  have s1: "self1 = ?e\<lparr>order_books := (order_books ?e)(symbol order \<mapsto> b), trades := g\<rparr>"
    and o1: "order1 = ?a1"
    and rp: "report = Executed (order_id ?a1) (status ?a1) (filled_quantity ?a1)
                        (remaining_quantity ?a1) t"
    by simp_all
  have 1: "\<forall>smb ob p level x. order_books self1 smb = Some ob \<longrightarrow>
            (p, level) \<in> set (bids ob) \<union> set (asks ob) \<longrightarrow> x \<in> set (orders level) \<longrightarrow>
            order_type x = LIMIT"
    using e1ok book_ok_only_limit(1) unfolding engine_ok_def by blast
  have 2: "\<forall>smb ob oid x. order_books self1 smb = Some ob \<longrightarrow> orders_ob ob oid = Some x \<longrightarrow>
            order_type x = LIMIT"
    using e1ok book_ok_only_limit(2) unfolding engine_ok_def by blast
  have 3: "\<exists>ob1 ts. order_books self1 (symbol order) = Some ob1
           \<and> side_book (side order) ob1 = side_book (side order) ?ob
           \<and> orders_ob ob1 \<subseteq>\<^sub>m orders_ob ?ob
           \<and> level_keys (opposite (side order)) ob1 \<subseteq> level_keys (opposite (side order)) ?ob
           \<and> report = Executed (order_id order) (status order1) (filled_quantity order1)
                        (remaining_quantity order1) ts"
    using s1 own ix ks rp o1 oid by (intro exI[of _ b] exI[of _ t]) auto
  have 4: "order_type order1 = order_type order" using o1 ty by simp
  have 5: "0 < remaining_quantity order1 \<longrightarrow> status order1 = CANCELLED" using o1 by simp
  from 1 2 3 4 5 show ?thesis by blast
qed

definition ioc_d :: Order where
  "ioc_d = \<lparr>order_id = ''d'', symbol = ''BTC-USDT'', order_type = IOC, side = BUY,
            quantity = 2, price = Some 50000, timestamp = 3, status = PENDING,
            filled_quantity = 0, remaining_quantity = 2\<rparr>"

theorem ioc_market_never_rest_witness:
  "list_all valid_op [Submit sell_a] \<and> fresh ioc_d
   \<and> (order_type ioc_d = IOC \<or> order_type ioc_d = MARKET)
   \<and> submit_order (run MatchingEngine_init [Submit sell_a]) ioc_d =
      (\<lparr>order_books = [''BTC-USDT'' \<mapsto>
           \<lparr>symbol_ob = ''BTC-USDT'', bids = [], asks = [], orders_ob = Map.empty\<rparr>],
         trades = [\<lparr>symbol_t = ''BTC-USDT'', price_t = 50000, quantity_t = 1,
                    aggressor_side = BUY, maker_order_id = ''a'', taker_order_id = ''d''\<rparr>]\<rparr>,
       ioc_d\<lparr>filled_quantity := 1, remaining_quantity := 1, status := CANCELLED\<rparr>,
       Executed ''d'' CANCELLED 1 1
         [\<lparr>symbol_t = ''BTC-USDT'', price_t = 50000, quantity_t = 1,
           aggressor_side = BUY, maker_order_id = ''a'', taker_order_id = ''d''\<rparr>])
   \<and> status (ioc_d\<lparr>filled_quantity := 1, remaining_quantity := 1, status := CANCELLED\<rparr>) = CANCELLED"
proof -
  let ?o1 = "ioc_d\<lparr>filled_quantity := 1, remaining_quantity := 1, status := CANCELLED\<rparr>"
  let ?tr = "\<lparr>symbol_t = ''BTC-USDT'', price_t = 50000, quantity_t = 1,
                    aggressor_side = BUY, maker_order_id = ''a'', taker_order_id = ''d''\<rparr>"
  let ?e1 = "\<lparr>order_books = [''BTC-USDT'' \<mapsto>
           \<lparr>symbol_ob = ''BTC-USDT'', bids = [], asks = [], orders_ob = Map.empty\<rparr>],
         trades = [?tr]\<rparr>"
  have h1: "list_all valid_op [Submit sell_a]" by (simp add: fresh_defs sell_a_def)
  have h2: "fresh ioc_d" by (simp add: fresh_defs ioc_d_def)
  have h3: "order_type ioc_d = IOC \<or> order_type ioc_d = MARKET" by (simp add: ioc_d_def)
  have h4: "submit_order (run MatchingEngine_init [Submit sell_a]) ioc_d =
      (?e1, ?o1, Executed ''d'' CANCELLED 1 1 [?tr])"
    by (simp add: eval_defs sell_a_def ioc_d_def)
  have pos: "0 < remaining_quantity ?o1" by simp
  from ioc_market_never_rest[OF h1 h2 h3 h4] pos h1 h2 h3 h4 show ?thesis by blast
qed

section \<open>The states in which the matching loop fills\<close>

text \<open>
  Observers of the matching loops. They follow the iterations of the inner and of the
  outer loop through the same steps (\<open>match_step\<close>, \<open>match_level\<close>,
  \<open>remove_empty_level\<close>) and record, for every pass through the body of the inner loop,
  the incoming order, the book and the level object as they are when the body is
  entered, before the fill.
\<close>

function fill_states_level ::
  "rat \<Rightarrow> Order \<Rightarrow> OrderBook \<Rightarrow> PriceLevel \<Rightarrow> Trade list \<Rightarrow> Trade list \<Rightarrow>
   (Order \<times> OrderBook \<times> PriceLevel) list" where
  "fill_states_level best_price order order_book price_level trades_local tlog =
     (if remaining_quantity order > 0 \<and> orders price_level \<noteq> [] then
        (case match_step best_price order order_book price_level trades_local tlog of
           Inl x \<Rightarrow> [(order, order_book, price_level)]
         | Inr (order1, book1, level1, trades1, tlog1) \<Rightarrow>
             (order, order_book, price_level)
               # fill_states_level best_price order1 book1 level1 trades1 tlog1)
      else [])"
  by pat_completeness auto
termination
proof (relation "measure (\<lambda>(bp, order, ob, lvl, ts, tlog).
          if remaining_quantity order > 0 then Suc (length (orders lvl)) else 0)", goal_cases)
  case 1
  show ?case by simp
next
  case (2 bp order ob lvl ts tlog x2 order1 y book1 z level1 w trades1 tlog1)
  then have "match_step bp order ob lvl ts tlog = Inr (order1, book1, level1, trades1, tlog1)"
    by simp
  from match_step_decreases[OF this] 2 show ?case by auto
qed

declare fill_states_level.simps [simp del]

function fill_states_loop ::
  "Order \<Rightarrow> OrderBook \<Rightarrow> Trade list \<Rightarrow> Trade list \<Rightarrow> (Order \<times> OrderBook \<times> PriceLevel) list" where
  "fill_states_loop order order_book trades_local tlog =
     (if remaining_quantity order > 0 \<and> side_book (opposite (side order)) order_book \<noteq> [] then
        (case side_book (opposite (side order)) order_book of
           [] \<Rightarrow> []
         | (best_price, price_level) # _ \<Rightarrow>
             if beyond_limit order best_price then []
             else
               fill_states_level best_price order order_book price_level trades_local tlog
               @ (case match_level best_price order order_book price_level trades_local tlog of
                    Inl x \<Rightarrow> []
                  | Inr (order1, book1, level1, trades1, tlog1) \<Rightarrow>
                      fill_states_loop order1
                        (remove_empty_level (opposite (side order)) best_price level1 book1)
                        trades1 tlog1))
      else [])"
  by pat_completeness auto
termination
proof (relation "measure (\<lambda>(order, ob, ts, tlog).
          card (level_keys (opposite (side order)) ob)
          + (if remaining_quantity order > 0 then 1 else 0))", goal_cases)
  case 1
  show ?case by simp
next
  case (2 order ob ts tlog x21 x22 bp lvl x2 order1 y book1 z level1 w trades1 tlog1)
  let ?cs = "opposite (side order)"
  let ?ob2 = "remove_empty_level ?cs bp level1 book1"
  from 2 have ml: "match_level bp order ob lvl ts tlog = Inr (order1, book1, level1, trades1, tlog1)"
    by simp
  have sd: "side order1 = side order" by (rule match_level_props(1)[OF ml])
  have sub: "level_keys ?cs ?ob2 \<subseteq> level_keys ?cs ob"
    using level_keys_remove_empty_level[of ?cs ?cs bp level1 book1]
      match_level_props(2)[OF ml, of ?cs] by blast
  have fin: "finite (level_keys ?cs ob)" by (simp add: level_keys_def)
  from 2 have mem: "bp \<in> level_keys ?cs ob" by (auto simp: level_keys_def)
  show ?case
  proof (cases "remaining_quantity order1 > 0")
    case True
    with match_level_props(3)[OF ml] have "orders level1 = []" by auto
    then have "bp \<notin> level_keys ?cs ?ob2" by (rule level_keys_remove_empty_level_same)
    with sub mem have "level_keys ?cs ?ob2 \<subset> level_keys ?cs ob" by blast
    then have "card (level_keys ?cs ?ob2) < card (level_keys ?cs ob)"
      using fin by (rule psubset_card_mono[rotated])
    with 2 sd show ?thesis by simp
  next
    case False
    have "card (level_keys ?cs ?ob2) \<le> card (level_keys ?cs ob)"
      using fin sub by (rule card_mono)
    with False 2 sd show ?thesis by simp
  qed
qed

declare fill_states_loop.simps [simp del]

text \<open>
  The best price of the opposite side of the book, in the words of the specification:
  the minimum ask key for a BUY order, the maximum bid key for a SELL order.
\<close>

definition best_contra_price :: "OrderSide \<Rightarrow> OrderBook \<Rightarrow> rat option" where
  "best_contra_price sd ob =
     (if sd = BUY
      then (if asks ob = [] then None else Some (Min (set (map fst (asks ob)))))
      else (if bids ob = [] then None else Some (Max (set (map fst (bids ob))))))"

text \<open>The best opposite price in the book at each fill of \<open>_match_order\<close>, in order.\<close>

definition best_at_fills :: "Order \<Rightarrow> OrderBook \<Rightarrow> Trade list \<Rightarrow> rat option list" where
  "best_at_fills order ob tlog =
     map (\<lambda>(a, b, l). best_contra_price (side a) b) (fill_states_loop order ob [] tlog)"

section \<open>The rounding of level totals, and what follows from it\<close>

text \<open>
  Orders whose quantities differ by 28 orders of magnitude: the sum of their remaining
  quantities has 29 significant digits and the level's total is rounded.
\<close>

definition sell_1 :: Order where
  "sell_1 = \<lparr>order_id = ''s1'', symbol = ''BTC-USDT'', order_type = LIMIT, side = SELL,
             quantity = 1, price = Some 100, timestamp = 0, status = PENDING,
             filled_quantity = 0, remaining_quantity = 1\<rparr>"

definition sell_tiny :: Order where
  "sell_tiny = \<lparr>order_id = ''s2'', symbol = ''BTC-USDT'', order_type = LIMIT, side = SELL,
             quantity = 1 / 10 ^ 28, price = Some 100, timestamp = 1, status = PENDING,
             filled_quantity = 0, remaining_quantity = 1 / 10 ^ 28\<rparr>"

definition sell_101 :: Order where
  "sell_101 = \<lparr>order_id = ''s3'', symbol = ''BTC-USDT'', order_type = LIMIT, side = SELL,
             quantity = 1, price = Some 101, timestamp = 2, status = PENDING,
             filled_quantity = 0, remaining_quantity = 1\<rparr>"

definition buy_2 :: Order where
  "buy_2 = \<lparr>order_id = ''b1'', symbol = ''BTC-USDT'', order_type = LIMIT, side = BUY,
             quantity = 2, price = Some 101, timestamp = 3, status = PENDING,
             filled_quantity = 0, remaining_quantity = 2\<rparr>"

lemmas order_defs = sell_1_def sell_tiny_def sell_101_def buy_2_def

text \<open>
  C5 fails on the code: after the two sell orders the level at 100 holds both, its total
  is 1, and the remaining quantities of its queue add up to more.
\<close>

theorem level_total_rounded:
  "list_all valid_op [Submit sell_1, Submit sell_tiny]
   \<and> order_books (run MatchingEngine_init [Submit sell_1, Submit sell_tiny]) ''BTC-USDT'' =
       Some \<lparr>symbol_ob = ''BTC-USDT'', bids = [],
             asks = [(100, \<lparr>price_l = 100, orders = [sell_1, sell_tiny], total_quantity = 1\<rparr>)],
             orders_ob = [''s1'' \<mapsto> sell_1, ''s2'' \<mapsto> sell_tiny]\<rparr>
   \<and> sum_list (map remaining_quantity [sell_1, sell_tiny]) = 1 + 1 / 10 ^ 28"
proof -
  have 1: "list_all valid_op [Submit sell_1, Submit sell_tiny]"
    by (simp add: fresh_defs order_defs)
  have 2: "order_books (run MatchingEngine_init [Submit sell_1, Submit sell_tiny]) ''BTC-USDT'' =
       Some \<lparr>symbol_ob = ''BTC-USDT'', bids = [],
             asks = [(100, \<lparr>price_l = 100, orders = [sell_1, sell_tiny], total_quantity = 1\<rparr>)],
             orders_ob = [''s1'' \<mapsto> sell_1, ''s2'' \<mapsto> sell_tiny]\<rparr>"
    by (simp add: eval_defs order_defs)
  have 3: "sum_list (map remaining_quantity [sell_1, sell_tiny]) = 1 + 1 / 10 ^ 28"
    by (simp add: order_defs)
  from 1 2 3 show ?thesis by (intro conjI)
qed


text \<open>
  C1 fails on the code. With the two orders at 100 and one at 101 resting, a buy order
  for 2 at 101 fills the first order at 100; the level's total is then zero and
  \<open>update_order_quantity\<close> deletes the key 100 while the second order is still queued in
  the level object. The inner loop fills that order next, at 100, when the lowest ask key
  of the book is 101.
\<close>

theorem trade_off_the_best_ask:
  "list_all valid_op [Submit sell_1, Submit sell_tiny, Submit sell_101]
   \<and> order_books (run MatchingEngine_init [Submit sell_1, Submit sell_tiny, Submit sell_101])
        ''BTC-USDT'' =
       Some \<lparr>symbol_ob = ''BTC-USDT'', bids = [],
             asks = [(100, \<lparr>price_l = 100, orders = [sell_1, sell_tiny], total_quantity = 1\<rparr>),
                     (101, \<lparr>price_l = 101, orders = [sell_101], total_quantity = 1\<rparr>)],
             orders_ob = [''s1'' \<mapsto> sell_1, ''s2'' \<mapsto> sell_tiny, ''s3'' \<mapsto> sell_101]\<rparr>
   \<and> (\<exists>a b g. match_order buy_2
         \<lparr>symbol_ob = ''BTC-USDT'', bids = [],
           asks = [(100, \<lparr>price_l = 100, orders = [sell_1, sell_tiny], total_quantity = 1\<rparr>),
                   (101, \<lparr>price_l = 101, orders = [sell_101], total_quantity = 1\<rparr>)],
           orders_ob = [''s1'' \<mapsto> sell_1, ''s2'' \<mapsto> sell_tiny, ''s3'' \<mapsto> sell_101]\<rparr> [] =
         Inr (a, b,
              [\<lparr>symbol_t = ''BTC-USDT'', price_t = 100, quantity_t = 1,
                aggressor_side = BUY, maker_order_id = ''s1'', taker_order_id = ''b1''\<rparr>,
               \<lparr>symbol_t = ''BTC-USDT'', price_t = 100, quantity_t = 1 / 10 ^ 28,
                aggressor_side = BUY, maker_order_id = ''s2'', taker_order_id = ''b1''\<rparr>,
               \<lparr>symbol_t = ''BTC-USDT'', price_t = 101, quantity_t = 1 - 1 / 10 ^ 28,
                aggressor_side = BUY, maker_order_id = ''s3'', taker_order_id = ''b1''\<rparr>], g))
   \<and> best_at_fills buy_2
         \<lparr>symbol_ob = ''BTC-USDT'', bids = [],
           asks = [(100, \<lparr>price_l = 100, orders = [sell_1, sell_tiny], total_quantity = 1\<rparr>),
                   (101, \<lparr>price_l = 101, orders = [sell_101], total_quantity = 1\<rparr>)],
           orders_ob = [''s1'' \<mapsto> sell_1, ''s2'' \<mapsto> sell_tiny, ''s3'' \<mapsto> sell_101]\<rparr> []
       = [Some 100, Some 101, Some 101]"
proof -
  let ?ops = "[Submit sell_1, Submit sell_tiny, Submit sell_101]"
  let ?ob = "\<lparr>symbol_ob = ''BTC-USDT'', bids = [],
           asks = [(100, \<lparr>price_l = 100, orders = [sell_1, sell_tiny], total_quantity = 1\<rparr>),
                   (101, \<lparr>price_l = 101, orders = [sell_101], total_quantity = 1\<rparr>)],
           orders_ob = [''s1'' \<mapsto> sell_1, ''s2'' \<mapsto> sell_tiny, ''s3'' \<mapsto> sell_101]\<rparr>"
  have 1: "list_all valid_op ?ops" by (simp add: fresh_defs order_defs)
  have 2: "order_books (run MatchingEngine_init ?ops) ''BTC-USDT'' = Some ?ob"
    by (simp add: eval_defs order_defs)
  have 3: "\<exists>a b g. match_order buy_2 ?ob [] =
         Inr (a, b,
              [\<lparr>symbol_t = ''BTC-USDT'', price_t = 100, quantity_t = 1,
                aggressor_side = BUY, maker_order_id = ''s1'', taker_order_id = ''b1''\<rparr>,
               \<lparr>symbol_t = ''BTC-USDT'', price_t = 100, quantity_t = 1 / 10 ^ 28,
                aggressor_side = BUY, maker_order_id = ''s2'', taker_order_id = ''b1''\<rparr>,
               \<lparr>symbol_t = ''BTC-USDT'', price_t = 101, quantity_t = 1 - 1 / 10 ^ 28,
                aggressor_side = BUY, maker_order_id = ''s3'', taker_order_id = ''b1''\<rparr>], g)"
    by (simp add: eval_defs order_defs)
  have 4: "best_at_fills buy_2 ?ob [] = [Some 100, Some 101, Some 101]"
    by (simp add: best_at_fills_def fill_states_loop.simps fill_states_level.simps
        best_contra_price_def eval_defs order_defs)
  from 1 2 3 4 show ?thesis by (intro conjI)
qed


definition buy_1 :: Order where
  "buy_1 = \<lparr>order_id = ''b2'', symbol = ''BTC-USDT'', order_type = LIMIT, side = BUY,
             quantity = 1, price = Some 100, timestamp = 2, status = PENDING,
             filled_quantity = 0, remaining_quantity = 1\<rparr>"

definition sell_late :: Order where
  "sell_late = \<lparr>order_id = ''s4'', symbol = ''BTC-USDT'', order_type = LIMIT, side = SELL,
             quantity = 1, price = Some 100, timestamp = 3, status = PENDING,
             filled_quantity = 0, remaining_quantity = 1\<rparr>"

definition buy_again :: Order where
  "buy_again = \<lparr>order_id = ''b3'', symbol = ''BTC-USDT'', order_type = LIMIT, side = BUY,
             quantity = 1, price = Some 100, timestamp = 4, status = PENDING,
             filled_quantity = 0, remaining_quantity = 1\<rparr>"

text \<open>
  C3 fails on the code. A buy order for 1 at 100 fills the first of the two orders
  resting at 100, and the level is deleted with the second order, which has quantity
  left and is still in the index, in its queue. A sell order that arrives later at 100
  starts a new level, and the next buy order is filled against it: the order that came
  first at that price is passed over.
\<close>

theorem later_order_filled_first:
  "list_all valid_op [Submit sell_1, Submit sell_tiny, Submit buy_1, Submit sell_late]
   \<and> fresh buy_again
   \<and> order_books (run MatchingEngine_init
          [Submit sell_1, Submit sell_tiny, Submit buy_1, Submit sell_late]) ''BTC-USDT'' =
       Some \<lparr>symbol_ob = ''BTC-USDT'', bids = [],
             asks = [(100, \<lparr>price_l = 100, orders = [sell_late], total_quantity = 1\<rparr>)],
             orders_ob = [''s2'' \<mapsto> sell_tiny, ''s4'' \<mapsto> sell_late]\<rparr>
   \<and> snd (snd (submit_order (run MatchingEngine_init
          [Submit sell_1, Submit sell_tiny, Submit buy_1, Submit sell_late]) buy_again)) =
       Executed ''b3'' FILLED 1 0
         [\<lparr>symbol_t = ''BTC-USDT'', price_t = 100, quantity_t = 1,
           aggressor_side = BUY, maker_order_id = ''s4'', taker_order_id = ''b3''\<rparr>]
   \<and> price sell_tiny = price sell_late \<and> timestamp sell_tiny < timestamp sell_late
   \<and> 0 < remaining_quantity sell_tiny \<and> status sell_tiny = PENDING"
proof -
  let ?ops = "[Submit sell_1, Submit sell_tiny, Submit buy_1, Submit sell_late]"
  have 1: "list_all valid_op ?ops"
    by (simp add: fresh_defs order_defs buy_1_def sell_late_def)
  have 2: "fresh buy_again" by (simp add: fresh_defs buy_again_def)
  have 3: "order_books (run MatchingEngine_init ?ops) ''BTC-USDT'' =
       Some \<lparr>symbol_ob = ''BTC-USDT'', bids = [],
             asks = [(100, \<lparr>price_l = 100, orders = [sell_late], total_quantity = 1\<rparr>)],
             orders_ob = [''s2'' \<mapsto> sell_tiny, ''s4'' \<mapsto> sell_late]\<rparr>"
    by (simp add: eval_defs order_defs buy_1_def sell_late_def fun_upd_twist)
  have 4: "snd (snd (submit_order (run MatchingEngine_init ?ops) buy_again)) =
       Executed ''b3'' FILLED 1 0
         [\<lparr>symbol_t = ''BTC-USDT'', price_t = 100, quantity_t = 1,
           aggressor_side = BUY, maker_order_id = ''s4'', taker_order_id = ''b3''\<rparr>]"
    by (simp add: eval_defs order_defs buy_1_def sell_late_def buy_again_def)
  have 5: "price sell_tiny = price sell_late \<and> timestamp sell_tiny < timestamp sell_late
   \<and> 0 < remaining_quantity sell_tiny \<and> status sell_tiny = PENDING"
    by (simp add: order_defs sell_late_def)
  from 1 2 3 4 5 show ?thesis by (intro conjI) simp_all
qed

definition fok_s1 :: Order where
  "fok_s1 = \<lparr>order_id = ''f1'', symbol = ''BTC-USDT'', order_type = LIMIT, side = SELL,
             quantity = 10 ^ 10, price = Some 1, timestamp = 0, status = PENDING,
             filled_quantity = 0, remaining_quantity = 10 ^ 10\<rparr>"

definition fok_s2 :: Order where
  "fok_s2 = \<lparr>order_id = ''f2'', symbol = ''BTC-USDT'', order_type = LIMIT, side = SELL,
             quantity = 6 / 10 ^ 18, price = Some 1, timestamp = 1, status = PENDING,
             filled_quantity = 0, remaining_quantity = 6 / 10 ^ 18\<rparr>"

definition fok_buy :: Order where
  "fok_buy = \<lparr>order_id = ''f3'', symbol = ''BTC-USDT'', order_type = FOK, side = BUY,
             quantity = 10 ^ 10 + 1 / 10 ^ 17, price = Some 1, timestamp = 2, status = PENDING,
             filled_quantity = 0, remaining_quantity = 10 ^ 10 + 1 / 10 ^ 17\<rparr>"

text \<open>
  C2 fails on the code. The total of the level at 1 is the sum of the two resting
  quantities rounded up, and equals the quantity of the FOK order; the precheck passes,
  matching fills both resting orders, empties the book and writes two trades to the log,
  and leaves the FOK order with quantity to fill. \<open>_process_fok_order\<close> then sets it to
  \<open>CANCELLED\<close> and returns no trades.
\<close>

theorem fok_neither_filled_nor_killed:
  "list_all valid_op [Submit fok_s1, Submit fok_s2] \<and> fresh fok_buy
   \<and> order_books (run MatchingEngine_init [Submit fok_s1, Submit fok_s2]) ''BTC-USDT'' =
       Some \<lparr>symbol_ob = ''BTC-USDT'', bids = [],
             asks = [(1, \<lparr>price_l = 1, orders = [fok_s1, fok_s2],
                           total_quantity = 10 ^ 10 + 1 / 10 ^ 17\<rparr>)],
             orders_ob = [''f1'' \<mapsto> fok_s1, ''f2'' \<mapsto> fok_s2]\<rparr>
   \<and> submit_order (run MatchingEngine_init [Submit fok_s1, Submit fok_s2]) fok_buy =
       (\<lparr>order_books = [''BTC-USDT'' \<mapsto>
            \<lparr>symbol_ob = ''BTC-USDT'', bids = [], asks = [], orders_ob = Map.empty\<rparr>],
          trades = [\<lparr>symbol_t = ''BTC-USDT'', price_t = 1, quantity_t = 10 ^ 10,
                     aggressor_side = BUY, maker_order_id = ''f1'', taker_order_id = ''f3''\<rparr>,
                    \<lparr>symbol_t = ''BTC-USDT'', price_t = 1, quantity_t = 6 / 10 ^ 18,
                     aggressor_side = BUY, maker_order_id = ''f2'', taker_order_id = ''f3''\<rparr>]\<rparr>,
        \<lparr>order_id = ''f3'', symbol = ''BTC-USDT'', order_type = FOK, side = BUY,
          quantity = 10 ^ 10 + 1 / 10 ^ 17, price = Some 1, timestamp = 2, status = CANCELLED,
          filled_quantity = 10 ^ 10 + 1 / 10 ^ 17, remaining_quantity = 4 / 10 ^ 18\<rparr>,
        Executed ''f3'' CANCELLED (10 ^ 10 + 1 / 10 ^ 17) (4 / 10 ^ 18) [])"
proof -
  let ?ops = "[Submit fok_s1, Submit fok_s2]"
  have 1: "list_all valid_op ?ops" by (simp add: fresh_defs fok_s1_def fok_s2_def)
  have 2: "fresh fok_buy" by (simp add: fresh_defs fok_buy_def)
  have 3: "order_books (run MatchingEngine_init ?ops) ''BTC-USDT'' =
       Some \<lparr>symbol_ob = ''BTC-USDT'', bids = [],
             asks = [(1, \<lparr>price_l = 1, orders = [fok_s1, fok_s2],
                           total_quantity = 10 ^ 10 + 1 / 10 ^ 17\<rparr>)],
             orders_ob = [''f1'' \<mapsto> fok_s1, ''f2'' \<mapsto> fok_s2]\<rparr>"
    by (simp add: eval_defs fok_s1_def fok_s2_def)
  have 4: "submit_order (run MatchingEngine_init ?ops) fok_buy =
       (\<lparr>order_books = [''BTC-USDT'' \<mapsto>
            \<lparr>symbol_ob = ''BTC-USDT'', bids = [], asks = [], orders_ob = Map.empty\<rparr>],
          trades = [\<lparr>symbol_t = ''BTC-USDT'', price_t = 1, quantity_t = 10 ^ 10,
                     aggressor_side = BUY, maker_order_id = ''f1'', taker_order_id = ''f3''\<rparr>,
                    \<lparr>symbol_t = ''BTC-USDT'', price_t = 1, quantity_t = 6 / 10 ^ 18,
                     aggressor_side = BUY, maker_order_id = ''f2'', taker_order_id = ''f3''\<rparr>]\<rparr>,
        \<lparr>order_id = ''f3'', symbol = ''BTC-USDT'', order_type = FOK, side = BUY,
          quantity = 10 ^ 10 + 1 / 10 ^ 17, price = Some 1, timestamp = 2, status = CANCELLED,
          filled_quantity = 10 ^ 10 + 1 / 10 ^ 17, remaining_quantity = 4 / 10 ^ 18\<rparr>,
        Executed ''f3'' CANCELLED (10 ^ 10 + 1 / 10 ^ 17) (4 / 10 ^ 18) [])"
    by (simp add: eval_defs can_fill_loop.simps fok_s1_def fok_s2_def fok_buy_def)
  from 1 2 3 4 show ?thesis by (intro conjI)
qed

end
